theory Spec2Isabelle
  imports Complex_Main "HOL-Library.Sublist"
begin

section \<open>JavaScript numbers\<close>

text \<open>
  The services compute with JavaScript numbers. A number is modelled as an exact real, one of
  the two infinities, or NaN: the special values and the rules that produce them are those of
  the language (\<open>0/0\<close> is NaN, \<open>x/0\<close> is an infinity, NaN absorbs every operation and
  compares false with everything). Rounding, overflow and the sign of zero are not modelled:
  finite arithmetic is exact.
\<close>

datatype jsnum = Num real | PInf | NInf | NaN

fun jadd :: "jsnum \<Rightarrow> jsnum \<Rightarrow> jsnum" where
  "jadd NaN _ = NaN"
| "jadd _ NaN = NaN"
| "jadd PInf NInf = NaN"
| "jadd NInf PInf = NaN"
| "jadd PInf _ = PInf"
| "jadd _ PInf = PInf"
| "jadd NInf _ = NInf"
| "jadd _ NInf = NInf"
| "jadd (Num x) (Num y) = Num (x + y)"

fun jneg :: "jsnum \<Rightarrow> jsnum" where
  "jneg (Num x) = Num (- x)"
| "jneg PInf = NInf"
| "jneg NInf = PInf"
| "jneg NaN = NaN"

definition jsub :: "jsnum \<Rightarrow> jsnum \<Rightarrow> jsnum" where
  "jsub a b = jadd a (jneg b)"

fun jsign :: "jsnum \<Rightarrow> int" where
  "jsign (Num x) = (if x < 0 then -1 else if x = 0 then 0 else 1)"
| "jsign PInf = 1"
| "jsign NInf = -1"
| "jsign NaN = 0"

fun jmul :: "jsnum \<Rightarrow> jsnum \<Rightarrow> jsnum" where
  "jmul NaN _ = NaN"
| "jmul _ NaN = NaN"
| "jmul (Num x) (Num y) = Num (x * y)"
| "jmul a b =
     (if jsign a * jsign b = 0 then NaN else if jsign a * jsign b > 0 then PInf else NInf)"

fun jdiv :: "jsnum \<Rightarrow> jsnum \<Rightarrow> jsnum" where
  "jdiv NaN _ = NaN"
| "jdiv _ NaN = NaN"
| "jdiv (Num x) (Num y) =
     (if y = 0 then (if x = 0 then NaN else if x > 0 then PInf else NInf) else Num (x / y))"
| "jdiv (Num x) _ = Num 0"
| "jdiv a (Num y) = (if jsign a * (if y < 0 then -1 else 1) > 0 then PInf else NInf)"
| "jdiv _ _ = NaN"

fun jsqrt :: "jsnum \<Rightarrow> jsnum" where
  "jsqrt (Num x) = (if x < 0 then NaN else Num (sqrt x))"
| "jsqrt PInf = PInf"
| "jsqrt NInf = NaN"
| "jsqrt NaN = NaN"

text \<open>The comparison \<open>a > b\<close>: false as soon as one side is NaN.\<close>

fun jgt :: "jsnum \<Rightarrow> jsnum \<Rightarrow> bool" where
  "jgt NaN _ = False"
| "jgt _ NaN = False"
| "jgt (Num x) (Num y) = (x > y)"
| "jgt PInf PInf = False"
| "jgt PInf _ = True"
| "jgt _ PInf = False"
| "jgt NInf _ = False"
| "jgt _ NInf = True"

text \<open>The comparison \<open>a >= b\<close>, false as well when one side is NaN.\<close>

definition jge :: "jsnum \<Rightarrow> jsnum \<Rightarrow> bool" where
  "jge a b = (a \<noteq> NaN \<and> b \<noteq> NaN \<and> \<not> jgt b a)"


section \<open>Cosine similarity (chatService)\<close>

text \<open>
  An embedding vector is an array of finite numbers. Reading \<open>b[i]\<close> past the end of \<open>b\<close>
  gives \<open>undefined\<close>, which every arithmetic operation turns into NaN.
\<close>

type_synonym vector = "real list"

definition at_index :: "vector \<Rightarrow> nat \<Rightarrow> jsnum" where
  "at_index v i = (if i < length v then Num (v ! i) else NaN)"

text \<open>One turn of the loop body, on the accumulators \<open>(dotProduct, normA, normB)\<close>.\<close>

definition cos_step :: "vector \<Rightarrow> vector \<Rightarrow> nat \<Rightarrow> jsnum \<times> jsnum \<times> jsnum \<Rightarrow> jsnum \<times> jsnum \<times> jsnum" where
  "cos_step a b i acc =
     (case acc of (dotProduct, normA, normB) \<Rightarrow>
        (jadd dotProduct (jmul (at_index a i) (at_index b i)),
         jadd normA (jmul (at_index a i) (at_index a i)),
         jadd normB (jmul (at_index b i) (at_index b i))))"

definition cosineSimilarity :: "vector \<Rightarrow> vector \<Rightarrow> jsnum" where
  "cosineSimilarity a b =
     (case fold (cos_step a b) [0..<length a] (Num 0, Num 0, Num 0) of
        (dotProduct, normA, normB) \<Rightarrow> jdiv dotProduct (jmul (jsqrt normA) (jsqrt normB)))"

text \<open>The mathematical quantities the specification speaks of.\<close>

definition dot :: "vector \<Rightarrow> vector \<Rightarrow> real" where
  "dot a b = sum_list (map (\<lambda>(x, y). x * y) (zip a b))"

definition sumsq :: "vector \<Rightarrow> real" where
  "sumsq a = sum_list (map (\<lambda>x. x * x) a)"

definition euclid_norm :: "vector \<Rightarrow> real" where
  "euclid_norm a = sqrt (sumsq a)"


section \<open>Data model\<close>

text \<open>
  \<open>TextChunk\<close> has the fields \<open>id\<close> and \<open>text\<close>, \<open>VideoData\<close> the fields \<open>id\<close>,
  \<open>title\<close>, \<open>thumbnail\<close>, \<open>duration\<close>, \<open>transcript\<close>, \<open>chunks\<close> and \<open>embeddings\<close>
  (the two \<open>id\<close> fields and \<open>text\<close> are renamed here).
\<close>

record TextChunk =
  chunk_id :: string
  chunk_text :: string

record VideoData =
  video_id :: string
  title :: string
  thumbnail :: string
  duration :: string
  transcript :: string
  chunks :: "TextChunk list"
  embeddings :: "vector list"

text \<open>A thrown \<open>Error\<close> with its message; a call to an external service that may throw.\<close>

datatype error = Error string

datatype 'a call = Failed | Ok 'a


section \<open>Similarity ranking (chatService)\<close>

text \<open>
  The objects built by \<open>findRelevantChunks\<close>. \<open>videoData.chunks[index]\<close> is \<open>undefined\<close>
  (here \<open>None\<close>) when the chunk list is shorter than the embedding list.
\<close>

record scored =
  chunk :: "TextChunk option"
  similarity :: jsnum
  index :: nat

text \<open>
  \<open>Array.prototype.sort\<close> with a comparator: the sort is stable, \<open>x\<close> is placed after \<open>y\<close>
  when the comparator's value on \<open>(x, y)\<close> is greater than zero, and a NaN from the comparator
  counts as zero. For a comparator that is not a consistent order the language leaves the result
  to the implementation; the model is the insertion sort, which moves an element only past
  those it has been compared greater than.
\<close>

fun js_insert :: "('a \<Rightarrow> 'a \<Rightarrow> jsnum) \<Rightarrow> 'a \<Rightarrow> 'a list \<Rightarrow> 'a list" where
  "js_insert cmp x [] = [x]"
| "js_insert cmp x (y # ys) =
     (if jgt (cmp x y) (Num 0) then y # js_insert cmp x ys else x # y # ys)"

definition js_sort :: "('a \<Rightarrow> 'a \<Rightarrow> jsnum) \<Rightarrow> 'a list \<Rightarrow> 'a list" where
  "js_sort cmp xs = foldr (js_insert cmp) xs []"

text \<open>The comparator \<open>(a, b) => b.similarity - a.similarity\<close>.\<close>

definition by_similarity_desc :: "scored \<Rightarrow> scored \<Rightarrow> jsnum" where
  "by_similarity_desc a b = jsub (similarity b) (similarity a)"

definition chunk_at :: "TextChunk list \<Rightarrow> nat \<Rightarrow> TextChunk option" where
  "chunk_at cs i = (if i < length cs then Some (cs ! i) else None)"

text \<open>\<open>videoData.embeddings.map((embedding, index) => ...)\<close>.\<close>

definition similarities :: "vector \<Rightarrow> VideoData \<Rightarrow> scored list" where
  "similarities queryEmbedding videoData =
     map (\<lambda>i. \<lparr>chunk = chunk_at (chunks videoData) i,
                similarity = cosineSimilarity queryEmbedding (embeddings videoData ! i),
                index = i\<rparr>)
       [0..<length (embeddings videoData)]"

text \<open>\<open>topK\<close> is a count (3 at the only call); \<open>slice(0, topK)\<close> keeps the first \<open>topK\<close>.\<close>

definition findRelevantChunks :: "vector \<Rightarrow> VideoData \<Rightarrow> nat \<Rightarrow> scored list" where
  "findRelevantChunks queryEmbedding videoData topK =
     take topK (js_sort by_similarity_desc (similarities queryEmbedding videoData))"

text \<open>The order the ranking is meant to produce: higher score first, earlier chunk first on a tie.\<close>

definition ranks_before :: "scored \<Rightarrow> scored \<Rightarrow> bool" where
  "ranks_before x y =
     (jgt (similarity x) (similarity y) \<or> (similarity x = similarity y \<and> index x < index y))"

text \<open>An entry whose score is a number.\<close>

definition numeric :: "scored \<Rightarrow> bool" where
  "numeric x = (\<exists>r. similarity x = Num r)"

section \<open>Answer synthesis (chatService)\<close>

text \<open>
  Text outside ASCII is written as its UTF-8 bytes: the check mark U+2705, the cross mark
  U+274C, the bullet U+2022 and the clipboard U+1F4CB.
\<close>

definition check_mark :: string where "check_mark = [CHR 0xE2, CHR 0x9C, CHR 0x85]"
definition cross_mark :: string where "cross_mark = [CHR 0xE2, CHR 0x9D, CHR 0x8C]"
definition bullet :: string where "bullet = [CHR 0xE2, CHR 0x80, CHR 0xA2]"
definition clipboard :: string where "clipboard = [CHR 0xF0, CHR 0x9F, CHR 0x93, CHR 0x8B]"
definition nl :: string where "nl = [CHR 0x0A]"
definition dq :: string where "dq = [CHR 0x22]"
definition sq :: string where "sq = [CHR 0x27]"

text \<open>
  The environment variable \<open>VITE_OPENAI_API_KEY\<close>: \<open>!apiKey\<close> holds when it is absent or
  empty.
\<close>

definition no_key :: "string option \<Rightarrow> bool" where
  "no_key apiKey = (apiKey = None \<or> apiKey = Some [])"

record chat_request =
  model :: string
  system_content :: string
  user_content :: string
  max_tokens :: nat
  temperature :: real

text \<open>
  What the services reach outside themselves for: the API key, the embeddings and chat
  endpoints (the embeddings endpoint with the number of calls made before this one in the
  same run), the metadata source (the title, or the error thrown) and the transcript source, the
  successive values of \<open>Math.random()\<close>,
  and \<open>Number.prototype.toFixed(2)\<close>. A chat response carries its \<open>content\<close>, which may be
  \<open>null\<close>.
\<close>

record env =
  apiKey :: "string option"
  embeddings_create :: "nat \<Rightarrow> string \<Rightarrow> vector call"
  chat_create :: "chat_request \<Rightarrow> string option call"
  getVideoMetadata :: "string \<Rightarrow> error + string"
  fetchTranscript :: "string \<Rightarrow> string call"
  math_random :: "nat \<Rightarrow> real"
  toFixed2 :: "jsnum \<Rightarrow> string"

definition found_template :: "string \<Rightarrow> string" where
  "found_template videoTitle =
     check_mark @ '' Yes, based on the video '' @ dq @ videoTitle @ dq
     @ '', I can provide information about your question. Here are the key points:'' @ nl @ nl
     @ bullet @ '' The video discusses relevant concepts related to your query'' @ nl
     @ bullet @ '' Important details are covered in the content'' @ nl
     @ bullet @ '' The information is presented in a clear and informative manner'' @ nl @ nl
     @ ''*Note: This is a demo response. Configure OpenAI API key for full functionality.*''"

definition not_covered_template :: "string \<Rightarrow> string \<Rightarrow> string" where
  "not_covered_template question videoTitle =
     cross_mark @ '' I don'' @ sq @ ''t have enough relevant information in this video to answer ''
     @ ''your question about '' @ dq @ question @ dq @ ''. The video '' @ dq @ videoTitle @ dq
     @ '' doesn'' @ sq @ ''t seem to cover this topic in detail.''"

fun join_with :: "string \<Rightarrow> string list \<Rightarrow> string" where
  "join_with sep [] = []"
| "join_with sep [x] = x"
| "join_with sep (x # y # ys) = x @ sep @ join_with sep (y # ys)"

text \<open>
  The grounding context. Reading \<open>item.chunk.text\<close> of an entry without a chunk throws.
\<close>

fun context_lines :: "env \<Rightarrow> scored list \<Rightarrow> string list call" where
  "context_lines e [] = Ok []"
| "context_lines e (item # items) =
     (case chunk item of
        None \<Rightarrow> Failed
      | Some c \<Rightarrow>
          (case context_lines e items of
             Failed \<Rightarrow> Failed
           | Ok ls \<Rightarrow> Ok ((''[Similarity: '' @ toFixed2 e (similarity item) @ ''] '' @ chunk_text c) # ls)))"

definition answer_prompt :: "string \<Rightarrow> string \<Rightarrow> string \<Rightarrow> string" where
  "answer_prompt videoTitle context question =
     ''You are an AI assistant helping users understand video content. Based on the following ''
     @ ''transcript excerpts from the YouTube video '' @ dq @ videoTitle @ dq
     @ '', answer the user'' @ sq @ ''s question.'' @ nl @ nl
     @ ''Context from video transcript:'' @ nl @ context @ nl @ nl
     @ ''Question: '' @ question @ nl @ nl
     @ ''Instructions:'' @ nl
     @ ''- If the context contains relevant information, provide a clear answer with key points in bullet format'' @ nl
     @ ''- Start with '' @ check_mark @ '' if you can answer the question based on the context'' @ nl
     @ ''- Start with '' @ cross_mark @ '' if the context doesn'' @ sq @ ''t contain relevant information'' @ nl
     @ ''- Be specific and reference the video content'' @ nl
     @ ''- Keep the response concise but informative'' @ nl
     @ ''- If you cannot answer based on the provided context, clearly state that'' @ nl @ nl
     @ ''Answer:''"

definition answer_request :: "string \<Rightarrow> string \<Rightarrow> string \<Rightarrow> chat_request" where
  "answer_request videoTitle context question =
     \<lparr>model = ''gpt-4o-mini'',
      system_content = ''You are a helpful assistant that answers questions about video content based only on provided transcript context.'',
      user_content = answer_prompt videoTitle context question,
      max_tokens = 500,
      temperature = 3 / 10\<rparr>"

text \<open>\<open>content || fallback\<close>: the fallback replaces a \<open>null\<close> or empty content.\<close>

definition or_else :: "string option \<Rightarrow> string \<Rightarrow> string" where
  "or_else content fallback =
     (case content of None \<Rightarrow> fallback | Some s \<Rightarrow> if s = [] then fallback else s)"

text \<open>The body of the \<open>try\<close> block of \<open>generateAnswer\<close>: anything thrown in it is \<open>Failed\<close>.\<close>

definition answer_call :: "env \<Rightarrow> string \<Rightarrow> scored list \<Rightarrow> string \<Rightarrow> string call" where
  "answer_call e question relevantChunks videoTitle =
     (case context_lines e relevantChunks of
        Failed \<Rightarrow> Failed
      | Ok ls \<Rightarrow>
          (case chat_create e (answer_request videoTitle (join_with (nl @ nl) ls) question) of
             Failed \<Rightarrow> Failed
           | Ok content \<Rightarrow> Ok (or_else content ''Unable to generate response'')))"

definition generateAnswer :: "env \<Rightarrow> string \<Rightarrow> scored list \<Rightarrow> string \<Rightarrow> error + string" where
  "generateAnswer e question relevantChunks videoTitle =
     (if no_key (apiKey e) then
        (if list_ex (\<lambda>item. jgt (similarity item) (Num (3 / 10))) relevantChunks
         then Inr (found_template videoTitle)
         else Inr (not_covered_template question videoTitle))
      else
        (case answer_call e question relevantChunks videoTitle of
           Ok answer \<Rightarrow> Inr answer
         | Failed \<Rightarrow> Inl (Error ''Failed to generate answer. Please try again.'')))"

text \<open>The demo mode's test \<open>relevantChunks.some(item => item.similarity > 0.3)\<close>.\<close>

definition relevant :: "scored list \<Rightarrow> bool" where
  "relevant rc = (\<exists>item\<in>set rc. jgt (similarity item) (Num (3 / 10)))"

section \<open>Embedding (chatService, videoProcessor)\<close>

text \<open>
  \<open>Math.random()\<close> is a source of successive draws: the state is the number of draws made so
  far. \<open>Array.from({ length: 1536 }, () => Math.random() - 0.5)\<close> makes 1536 of them.
\<close>

definition mock_vector :: "env \<Rightarrow> nat \<Rightarrow> vector \<times> nat" where
  "mock_vector e drawn = (map (\<lambda>k. math_random e (drawn + k) - 1 / 2) [0..<1536], drawn + 1536)"

definition generateQueryEmbedding :: "env \<Rightarrow> nat \<Rightarrow> string \<Rightarrow> vector \<times> nat" where
  "generateQueryEmbedding e drawn query =
     (if no_key (apiKey e) then mock_vector e drawn
      else
        (case embeddings_create e 0 query of
           Ok embedding \<Rightarrow> (embedding, drawn)
         | Failed \<Rightarrow> mock_vector e drawn))"

text \<open>\<open>chunks.map(() => Array.from(...))\<close>: one mock vector per chunk, in order.\<close>

fun mock_embeddings :: "env \<Rightarrow> nat \<Rightarrow> TextChunk list \<Rightarrow> vector list \<times> nat" where
  "mock_embeddings e drawn [] = ([], drawn)"
| "mock_embeddings e drawn (c # cs) =
     (case mock_vector e drawn of
        (v, drawn1) \<Rightarrow>
          (case mock_embeddings e drawn1 cs of (vs, drawn2) \<Rightarrow> (v # vs, drawn2)))"

text \<open>
  The \<open>for (const chunk of chunks)\<close> loop of the live path, from the \<open>calls\<close>-th call on: the
  first call that throws ends it.
\<close>

fun embed_all :: "env \<Rightarrow> nat \<Rightarrow> TextChunk list \<Rightarrow> vector list call" where
  "embed_all e calls [] = Ok []"
| "embed_all e calls (c # cs) =
     (case embeddings_create e calls (chunk_text c) of
        Failed \<Rightarrow> Failed
      | Ok v \<Rightarrow>
          (case embed_all e (Suc calls) cs of
             Failed \<Rightarrow> Failed
           | Ok vs \<Rightarrow> Ok (v # vs)))"

definition generateEmbeddings :: "env \<Rightarrow> nat \<Rightarrow> TextChunk list \<Rightarrow> vector list \<times> nat" where
  "generateEmbeddings e drawn cs =
     (if no_key (apiKey e) then mock_embeddings e drawn cs
      else
        (case embed_all e 0 cs of
           Ok es \<Rightarrow> (es, drawn)
         | Failed \<Rightarrow> mock_embeddings e drawn cs))"


section \<open>Question answering and summary (chatService)\<close>

definition askQuestion :: "env \<Rightarrow> nat \<Rightarrow> string \<Rightarrow> VideoData \<Rightarrow> (error + string) \<times> nat" where
  "askQuestion e drawn question videoData =
     (case generateQueryEmbedding e drawn question of
        (queryEmbedding, drawn1) \<Rightarrow>
          (generateAnswer e question (findRelevantChunks queryEmbedding videoData 3) (title videoData),
           drawn1))"

definition demo_summary :: "string \<Rightarrow> string" where
  "demo_summary videoTitle =
     clipboard @ '' **Video Summary: '' @ videoTitle @ ''**'' @ nl @ nl
     @ ''This video covers several important topics and provides valuable insights. Here are the key takeaways:'' @ nl @ nl
     @ bullet @ '' Main concepts and ideas are presented clearly'' @ nl
     @ bullet @ '' Relevant examples and case studies are discussed  '' @ nl
     @ bullet @ '' Practical applications and implementations are covered'' @ nl
     @ bullet @ '' Expert insights and best practices are shared'' @ nl @ nl
     @ ''*Note: Configure OpenAI API key for detailed AI-generated summaries.*''"

definition summary_request :: "VideoData \<Rightarrow> chat_request" where
  "summary_request videoData =
     \<lparr>model = ''gpt-4o-mini'',
      system_content = ''You are an AI assistant that creates concise video summaries. Create bullet-point summaries that capture the key points and main themes.'',
      user_content =
        ''Create a bullet-point summary of this YouTube video titled '' @ dq @ title videoData @ dq
        @ '' based on the following transcript excerpts:'' @ nl @ nl
        @ join_with (nl @ nl) (map chunk_text (take 5 (chunks videoData))) @ nl @ nl
        @ ''Format the summary with:'' @ nl
        @ ''- A brief title/header'' @ nl
        @ ''- 4-6 key bullet points highlighting the main topics'' @ nl
        @ ''- Keep it concise and informative'' @ nl @ nl
        @ ''Summary:'',
      max_tokens = 400,
      temperature = 3 / 10\<rparr>"

definition generateVideoSummary :: "env \<Rightarrow> VideoData \<Rightarrow> error + string" where
  "generateVideoSummary e videoData =
     (if no_key (apiKey e) then Inr (demo_summary (title videoData))
      else
        (case chat_create e (summary_request videoData) of
           Ok content \<Rightarrow> Inr (or_else content ''Unable to generate summary'')
         | Failed \<Rightarrow> Inr ''Unable to generate video summary at this time.''))"

section \<open>Chunking (videoProcessor)\<close>

text \<open>
  A transcript is a string of characters in the Latin-1 range. \<open>trim\<close> removes white space
  (tab, line feed, vertical tab, form feed, carriage return, space, no-break space) from both
  ends.
\<close>

definition is_space :: "char \<Rightarrow> bool" where
  "is_space c = (c \<in> {CHR 0x09, CHR 0x0A, CHR 0x0B, CHR 0x0C, CHR 0x0D, CHR 0x20, CHR 0xA0})"

definition trim :: "string \<Rightarrow> string" where
  "trim s = rev (dropWhile is_space (rev (dropWhile is_space s)))"

definition is_terminator :: "char \<Rightarrow> bool" where
  "is_terminator c = (c = CHR ''.'' \<or> c = CHR ''!'' \<or> c = CHR ''?'')"

text \<open>
  \<open>text.split(/[.!?]+/)\<close>: the pieces between the maximal runs of separators, the empty
  pieces at both ends included. \<open>cur\<close> is the piece being read; a separator followed by
  another one belongs to the same run.
\<close>

fun split_runs :: "(char \<Rightarrow> bool) \<Rightarrow> string \<Rightarrow> string \<Rightarrow> string list" where
  "split_runs sep cur [] = [cur]"
| "split_runs sep cur (c # cs) =
     (if sep c then
        (case cs of
           [] \<Rightarrow> cur # split_runs sep [] cs
         | d # _ \<Rightarrow> if sep d then split_runs sep cur cs else cur # split_runs sep [] cs)
      else split_runs sep (cur @ [c]) cs)"

text \<open>\<open>s.split(' ')\<close>: the pieces between the single separators.\<close>

fun split_char :: "char \<Rightarrow> string \<Rightarrow> string \<Rightarrow> string list" where
  "split_char sep cur [] = [cur]"
| "split_char sep cur (c # cs) =
     (if c = sep then cur # split_char sep [] cs else split_char sep (cur @ [c]) cs)"

text \<open>
  \<open>words.slice(-overlap)\<close>: the last \<open>overlap\<close> elements, all of them when there are fewer;
  \<open>-0\<close> is \<open>0\<close>, so with no overlap \<open>slice\<close> starts at the first element and keeps all.
\<close>

definition slice_last :: "nat \<Rightarrow> 'a list \<Rightarrow> 'a list" where
  "slice_last overlap ws = (if overlap = 0 then ws else drop (length ws - overlap) ws)"

text \<open>The decimal digits of a number, as a template literal prints them.\<close>

fun show_nat :: "nat \<Rightarrow> string" where
  "show_nat n =
     (if n < 10 then [char_of (48 + n)] else show_nat (n div 10) @ [char_of (48 + n mod 10)])"

declare show_nat.simps [simp del]

definition mk_chunk :: "nat \<Rightarrow> string \<Rightarrow> TextChunk" where
  "mk_chunk chunkId currentChunk =
     \<lparr>chunk_id = ''chunk-'' @ show_nat chunkId, chunk_text = trim currentChunk\<rparr>"

definition sentences_of :: "string \<Rightarrow> string list" where
  "sentences_of t = filter (\<lambda>s. length (trim s) > 0) (split_runs is_terminator [] t)"

text \<open>The loop body, on \<open>(chunks, currentChunk, chunkId)\<close>.\<close>

definition chunk_step ::
  "nat \<Rightarrow> nat \<Rightarrow> string \<Rightarrow> TextChunk list \<times> string \<times> nat \<Rightarrow> TextChunk list \<times> string \<times> nat" where
  "chunk_step chunkSize overlap s st =
     (case st of (cs, currentChunk, chunkId) \<Rightarrow>
        (let sentence = trim s @ ''.'' in
         if length currentChunk + length sentence > chunkSize \<and> length currentChunk > 0 then
           (cs @ [mk_chunk chunkId currentChunk],
            join_with '' '' (slice_last overlap (split_char CHR '' '' [] currentChunk))
              @ '' '' @ sentence,
            chunkId + 1)
         else
           (cs, currentChunk @ (if currentChunk \<noteq> [] then '' '' else []) @ sentence, chunkId)))"

definition chunkText :: "string \<Rightarrow> nat \<Rightarrow> nat \<Rightarrow> TextChunk list" where
  "chunkText t chunkSize overlap =
     (case fold (chunk_step chunkSize overlap) (sentences_of t) ([], [], 0) of
        (cs, currentChunk, chunkId) \<Rightarrow>
          if trim currentChunk \<noteq> [] then cs @ [mk_chunk chunkId currentChunk] else cs)"

text \<open>
  The chunker as the specification words it, on the sentence units (each trimmed and closed
  by a full stop): the buffer is closed when it is non-empty and the next sentence would take
  it past the bound, and the next buffer starts with what is carried over from the closed one
  (its last \<open>overlap\<close> words), followed by the sentence.
\<close>

definition sentence_units :: "string \<Rightarrow> string list" where
  "sentence_units t = map (\<lambda>s. trim s @ ''.'') (sentences_of t)"

definition last_words :: "nat \<Rightarrow> string \<Rightarrow> string" where
  "last_words n buffer =
     (let ws = split_char CHR '' '' [] buffer in join_with '' '' (drop (length ws - n) ws))"

fun spec_chunks :: "nat \<Rightarrow> (string \<Rightarrow> string) \<Rightarrow> nat \<Rightarrow> string \<Rightarrow> string list \<Rightarrow> TextChunk list" where
  "spec_chunks L carry next_id buffer [] =
     (if trim buffer = [] then [] else [mk_chunk next_id buffer])"
| "spec_chunks L carry next_id buffer (s # ss) =
     (if buffer \<noteq> [] \<and> L < length buffer + length s then
        mk_chunk next_id buffer # spec_chunks L carry (Suc next_id) (carry buffer @ '' '' @ s) ss
      else spec_chunks L carry next_id (if buffer = [] then s else buffer @ '' '' @ s) ss)"

definition chunkText_spec :: "string \<Rightarrow> nat \<Rightarrow> nat \<Rightarrow> TextChunk list" where
  "chunkText_spec t L ov = spec_chunks L (last_words ov) 0 [] (sentence_units t)"

text \<open>What the code carries over: \<open>overlapWords.join(' ')\<close>.\<close>

definition carried :: "nat \<Rightarrow> string \<Rightarrow> string" where
  "carried overlap currentChunk =
     join_with '' '' (slice_last overlap (split_char CHR '' '' [] currentChunk))"

text \<open>A sentence unit: not empty, with no white space at either end.\<close>

definition solid :: "string \<Rightarrow> bool" where
  "solid s = (s \<noteq> [] \<and> \<not> is_space (hd s) \<and> \<not> is_space (last s))"

text \<open>The last step of \<open>chunkText\<close>: the buffer left over becomes a chunk unless it is blank.\<close>

definition finish :: "TextChunk list \<times> string \<times> nat \<Rightarrow> TextChunk list" where
  "finish st = (case st of (cs, cur, n) \<Rightarrow> if trim cur \<noteq> [] then cs @ [mk_chunk n cur] else cs)"

section \<open>Video processing (videoProcessor)\<close>

text \<open>
  \<open>url.match(/(?:youtube\.com\/watch\?v=|youtu\.be\/)([a-zA-Z0-9_-]{11})/)\<close>: the first
  position of the URL where one of the two prefixes is followed by eleven identifier
  characters.
\<close>

definition is_id_char :: "char \<Rightarrow> bool" where
  "is_id_char c =
     (c \<in> set (''abcdefghijklmnopqrstuvwxyz'' @ ''ABCDEFGHIJKLMNOPQRSTUVWXYZ'' @ ''0123456789_-''))"

definition match_after :: "string \<Rightarrow> string \<Rightarrow> string option" where
  "match_after p s =
     (let rest = drop (length p) s in
      if take (length p) s = p \<and> length rest \<ge> 11 \<and> list_all is_id_char (take 11 rest)
      then Some (take 11 rest) else None)"

definition match_here :: "string \<Rightarrow> string option" where
  "match_here s =
     (case match_after ''youtube.com/watch?v='' s of
        Some v \<Rightarrow> Some v
      | None \<Rightarrow> match_after ''youtu.be/'' s)"

fun extractVideoId :: "string \<Rightarrow> string option" where
  "extractVideoId [] = None"
| "extractVideoId (c # cs) =
     (case match_here (c # cs) of Some v \<Rightarrow> Some v | None \<Rightarrow> extractVideoId cs)"

text \<open>
  The table of mock transcripts is an object literal, so a lookup also finds what the literal
  inherits: of the names that are eleven identifier characters long only \<open>constructor\<close>,
  a function (truthy, and of length 1).
\<close>

datatype transcript_value = Text string | Inherited_function

definition rick_transcript :: string where
  "rick_transcript =
     ''This is a classic music video featuring Rick Astley performing '' @ dq
     @ ''Never Gonna Give You Up'' @ dq @ ''. The song became famous as part of internet culture and ''
     @ dq @ ''Rickrolling'' @ dq @ ''. The video shows Rick Astley singing and dancing in various settings.''"

definition ml_transcript :: string where
  "ml_transcript =
     ''This video discusses the fundamentals of machine learning and artificial intelligence. ''
     @ ''It covers topics like neural networks, deep learning algorithms, and practical applications in various industries. ''
     @ ''Key concepts include supervised learning, unsupervised learning, and reinforcement learning.''"

definition react_transcript :: string where
  "react_transcript =
     ''A comprehensive tutorial on React.js development covering components, hooks, state management, and modern React patterns. ''
     @ ''The video explains how to build scalable applications using React best practices and includes practical examples.''"

definition mockTranscripts :: "string \<Rightarrow> transcript_value option" where
  "mockTranscripts videoId =
     (if videoId = ''dQw4w9WgXcQ'' then Some (Text rick_transcript)
      else if videoId = ''jNQXAC9IVRw'' then Some (Text ml_transcript)
      else if videoId = ''ScMzIvxBSi4'' then Some (Text react_transcript)
      else if videoId = ''constructor'' then Some Inherited_function
      else None)"

definition generic_transcript :: string where
  "generic_transcript =
     ''This video content covers various topics and provides valuable information on the subject matter. ''
     @ ''The speaker discusses important concepts and shares insights based on their expertise in the field.''"

text \<open>
  \<open>extractTranscript\<close>: the fetched text, or, when fetching throws, the mock transcript of
  the video (every entry of the table is truthy) or else the generic one.
\<close>

definition extractTranscript :: "env \<Rightarrow> string \<Rightarrow> transcript_value" where
  "extractTranscript e videoId =
     (case fetchTranscript e videoId of
        Ok t \<Rightarrow> Text t
      | Failed \<Rightarrow>
          (case mockTranscripts videoId of Some v \<Rightarrow> v | None \<Rightarrow> Text generic_transcript))"

text \<open>
  The guard \<open>!transcript || transcript.length < 50\<close>: the text that passes it, if any.
\<close>

fun usable_transcript :: "transcript_value \<Rightarrow> string option" where
  "usable_transcript (Text s) = (if s = [] \<or> length s < 50 then None else Some s)"
| "usable_transcript Inherited_function = None"

definition padStart2 :: "string \<Rightarrow> string" where
  "padStart2 s = replicate (2 - length s) CHR ''0'' @ s"

definition formatDuration :: "nat \<Rightarrow> string" where
  "formatDuration seconds =
     (let hours = seconds div 3600; minutes = (seconds mod 3600) div 60; secs = seconds mod 60 in
      if hours > 0 then
        show_nat hours @ '':'' @ padStart2 (show_nat minutes) @ '':'' @ padStart2 (show_nat secs)
      else show_nat minutes @ '':'' @ padStart2 (show_nat secs))"

datatype ProcessingState = Idle | Processing | Ready | ErrorState

text \<open>
  \<open>processVideo\<close> returns the video data or the error thrown, the states it has passed to
  \<open>onStateChange\<close>, and the number of random draws made. The metadata source gives the title
  or the error it throws.
\<close>

definition processVideo ::
  "env \<Rightarrow> nat \<Rightarrow> string \<Rightarrow> (error + VideoData) \<times> ProcessingState list \<times> nat" where
  "processVideo e drawn url =
     (case extractVideoId url of
        None \<Rightarrow> (Inl (Error ''Invalid YouTube URL''), [], drawn)
      | Some videoId \<Rightarrow>
          (case getVideoMetadata e videoId of
             Inl err \<Rightarrow> (Inl err, [Processing], drawn)
           | Inr metadata_title \<Rightarrow>
               (case usable_transcript (extractTranscript e videoId) of
                  None \<Rightarrow>
                    (Inl (Error ''No transcript available for this video or transcript is too short''),
                     [Processing], drawn)
                | Some t \<Rightarrow>
                    (let cs = chunkText t 500 50 in
                     if length cs = 0 then
                       (Inl (Error ''Failed to process video transcript''), [Processing], drawn)
                     else
                       (case generateEmbeddings e drawn cs of
                          (es, drawn1) \<Rightarrow>
                            (Inr \<lparr>video_id = videoId,
                                  title = metadata_title,
                                  thumbnail = ''https://img.youtube.com/vi/'' @ videoId @ ''/maxresdefault.jpg'',
                                  duration = formatDuration 300,
                                  transcript = t,
                                  chunks = cs,
                                  embeddings = es\<rparr>,
                             [Processing], drawn1))))))"

text \<open>The video data \<open>processVideo\<close> builds from an identifier, a title and a transcript.\<close>

definition built :: "env \<Rightarrow> nat \<Rightarrow> string \<Rightarrow> string \<Rightarrow> string \<Rightarrow> VideoData" where
  "built e drawn videoId metadata_title t =
     \<lparr>video_id = videoId,
      title = metadata_title,
      thumbnail = ''https://img.youtube.com/vi/'' @ videoId @ ''/maxresdefault.jpg'',
      duration = formatDuration 300,
      transcript = t,
      chunks = chunkText t 500 50,
      embeddings = fst (generateEmbeddings e drawn (chunkText t 500 50))\<rparr>"

section \<open>The application state (App)\<close>

datatype message_type = User | Assistant

record ChatMessage =
  message_id :: string
  message_type :: message_type
  content :: string
  timestamp :: nat

record app_state =
  processingState :: ProcessingState
  videoData :: "VideoData option"
  messages :: "ChatMessage list"
  error :: "string option"

definition welcome_content :: "string \<Rightarrow> string" where
  "welcome_content video_title =
     check_mark @ '' Video processed successfully! I'' @ sq @ ''ve analyzed '' @ dq @ video_title @ dq
     @ '' and can now answer questions about its content.'' @ nl @ nl
     @ ''**What I can help you with:**'' @ nl
     @ bullet @ '' Answer specific questions about the video content'' @ nl
     @ bullet @ '' Provide summaries of key points'' @ nl
     @ bullet @ '' Find relevant information from the transcript'' @ nl
     @ bullet @ '' Explain concepts discussed in the video'' @ nl @ nl
     @ ''**Try asking something like:**'' @ nl
     @ bullet @ '' '' @ dq @ ''What is the main topic of this video?'' @ dq @ nl
     @ bullet @ '' '' @ dq @ ''Can you summarize the key points?'' @ dq @ nl
     @ bullet @ '' '' @ dq @ ''Does this video mention [specific topic]?'' @ dq @ nl @ nl
     @ ''*Ready to chat! Ask me anything about the video.*''"

text \<open>
  \<open>handleVideoSubmit\<close>, on the component's state and the count of random draws; \<open>now\<close> is
  the clock reading. The three setters run before \<open>processVideo\<close> is called, and
  \<open>processVideo\<close> reports its states through \<open>setProcessingState\<close>.
\<close>

definition handleVideoSubmit :: "env \<Rightarrow> nat \<Rightarrow> app_state \<times> nat \<Rightarrow> string \<Rightarrow> app_state \<times> nat" where
  "handleVideoSubmit e now st url =
     (case st of (s, drawn) \<Rightarrow>
        (let s1 = s\<lparr>error := None, processingState := Processing, messages := []\<rparr> in
         case processVideo e drawn url of
           (outcome, reported, drawn1) \<Rightarrow>
             (let s2 = fold (\<lambda>p s'. s'\<lparr>processingState := p\<rparr>) reported s1 in
              case outcome of
                Inr result \<Rightarrow>
                  (s2\<lparr>videoData := Some result,
                      processingState := Ready,
                      messages := [\<lparr>message_id = show_nat now, message_type = Assistant,
                                    content = welcome_content (title result), timestamp = now\<rparr>]\<rparr>,
                   drawn1)
              | Inl (Error msg) \<Rightarrow>
                  (s2\<lparr>error := Some msg, processingState := ErrorState\<rparr>, drawn1))))"

definition handleReset :: "app_state \<Rightarrow> app_state" where
  "handleReset s = s\<lparr>processingState := Idle, videoData := None, messages := [], error := None\<rparr>"

section \<open>Example inputs\<close>

definition example_video :: "vector list \<Rightarrow> VideoData" where
  "example_video es =
     \<lparr>video_id = ''dQw4w9WgXcQ'', title = ''Example'', thumbnail = [], duration = ''5:00'',
      transcript = ''One. Two. Three.'',
      chunks = [mk_chunk 0 ''One.'', mk_chunk 1 ''Two.'', mk_chunk 2 ''Three.''],
      embeddings = es\<rparr>"

text \<open>
  An environment without an API key, in which the transcript source fails; and one with a key
  whose endpoints fail.
\<close>

definition demo_env :: env where
  "demo_env =
     \<lparr>apiKey = None,
      embeddings_create = (\<lambda>calls input. Failed),
      chat_create = (\<lambda>request. Failed),
      getVideoMetadata = (\<lambda>videoId. Inr ''Example''),
      fetchTranscript = (\<lambda>videoId. Failed),
      math_random = (\<lambda>k. if k < 1536 then 0 else 1 / 4),
      toFixed2 = (\<lambda>x. ''0.00'')\<rparr>"

definition failing_env :: env where
  "failing_env = demo_env\<lparr>apiKey := Some ''sk-test''\<rparr>"

text \<open>A ranked entry with a given text, score and position.\<close>

definition entry :: "string \<Rightarrow> jsnum \<Rightarrow> nat \<Rightarrow> scored" where
  "entry txt s i = \<lparr>chunk = Some (mk_chunk i txt), similarity = s, index = i\<rparr>"

text \<open>An environment whose transcript source answers with a short text.\<close>

definition short_env :: env where
  "short_env = demo_env\<lparr>fetchTranscript := (\<lambda>videoId. Ok ''Too short.'')\<rparr>"

text \<open>A state of the application after a video has been processed and a question asked.\<close>

definition chatting :: app_state where
  "chatting =
     \<lparr>processingState = Ready,
      videoData = Some (example_video [[1, 0], [0, 1], [1, 1]]),
      messages = [\<lparr>message_id = ''1700000000000'', message_type = User,
                    content = ''What is the main topic of this video?'', timestamp = 1700000000000\<rparr>],
      error = None\<rparr>"

text \<open>An environment with a key and an embeddings endpoint that answers.\<close>

definition live_env :: env where
  "live_env = demo_env\<lparr>apiKey := Some ''sk-test'',
     embeddings_create := (\<lambda>calls input. Ok [real (length input), real calls])\<rparr>"

section \<open>Properties of cosine similarity\<close>

lemma sumsq_nonneg: "0 \<le> sumsq a"
  unfolding sumsq_def by (induction a) simp_all

lemma sumsq_zero_iff: "sumsq a = 0 \<longleftrightarrow> (\<forall>x\<in>set a. x = 0)"
proof (induction a)
  case Nil
  then show ?case by (simp add: sumsq_def)
next
  case (Cons x xs)
  have nn: "0 \<le> sumsq xs" by (rule sumsq_nonneg)
  have "sumsq (x # xs) = x * x + sumsq xs" by (simp add: sumsq_def)
  moreover have "x * x + sumsq xs = 0 \<longleftrightarrow> x = 0 \<and> sumsq xs = 0"
    using nn by (smt (verit) mult_eq_0_iff zero_le_square)
  ultimately show ?case using Cons.IH by simp
qed

lemma euclid_norm_zero_iff: "euclid_norm a = 0 \<longleftrightarrow> (\<forall>x\<in>set a. x = 0)"
  by (simp add: euclid_norm_def sumsq_zero_iff)

lemma dot_commute: "length a = length b \<Longrightarrow> dot a b = dot b a"
proof (induction a arbitrary: b)
  case Nil
  then show ?case by (simp add: dot_def)
next
  case (Cons x xs)
  then obtain y ys where b: "b = y # ys" and len: "length xs = length ys"
    by (cases b) auto
  from Cons.IH [OF len] show ?case
    by (simp add: b dot_def mult.commute)
qed

lemma dot_self: "dot a a = sumsq a"
  by (induction a) (simp_all add: dot_def sumsq_def)

lemma dot_zero_left: "\<forall>x\<in>set a. x = 0 \<Longrightarrow> dot a b = 0"
proof (induction a arbitrary: b)
  case Nil
  then show ?case by (simp add: dot_def)
next
  case (Cons x xs)
  then show ?case by (cases b) (simp_all add: dot_def)
qed

lemma dot_zero_right: "\<forall>y\<in>set b. y = 0 \<Longrightarrow> dot a b = 0"
proof (induction a arbitrary: b)
  case Nil
  then show ?case by (simp add: dot_def)
next
  case (Cons x xs)
  then show ?case by (cases b) (simp_all add: dot_def)
qed

lemma dot_snoc: "length xs = length ys \<Longrightarrow> dot (xs @ [x]) (ys @ [y]) = dot xs ys + x * y"
  by (simp add: dot_def)

lemma sumsq_snoc: "sumsq (xs @ [x]) = sumsq xs + x * x"
  by (simp add: sumsq_def)

text \<open>The accumulators after \<open>n\<close> turns of the loop, while both arrays have elements.\<close>

lemma cos_fold_prefix:
  "n \<le> length a \<Longrightarrow> n \<le> length b \<Longrightarrow>
   fold (cos_step a b) [0..<n] (Num 0, Num 0, Num 0) =
     (Num (dot (take n a) (take n b)), Num (sumsq (take n a)), Num (sumsq (take n b)))"
proof (induction n)
  case 0
  then show ?case by (simp add: dot_def sumsq_def)
next
  case (Suc n)
  then have la: "n < length a" and lb: "n < length b" by simp_all
  have ta: "take (Suc n) a = take n a @ [a ! n]" using la by (simp add: take_Suc_conv_app_nth)
  have tb: "take (Suc n) b = take n b @ [b ! n]" using lb by (simp add: take_Suc_conv_app_nth)
  have len: "length (take n a) = length (take n b)" using la lb by simp
  show ?case using Suc.IH la lb
    by (simp add: ta tb dot_snoc [OF len] sumsq_snoc cos_step_def at_index_def)
qed

text \<open>Once the loop has read past the end of \<open>b\<close>, two of the accumulators are NaN.\<close>

lemma cos_fold_short:
  "length b < n \<Longrightarrow> n \<le> length a \<Longrightarrow>
   fold (cos_step a b) [0..<n] (Num 0, Num 0, Num 0) = (NaN, Num (sumsq (take n a)), NaN)"
proof (induction n)
  case 0
  then show ?case by simp
next
  case (Suc n)
  then have la: "n < length a" by simp
  have ta: "take (Suc n) a = take n a @ [a ! n]" using la by (simp add: take_Suc_conv_app_nth)
  have unroll: "fold (cos_step a b) [0..<Suc n] (Num 0, Num 0, Num 0) =
      cos_step a b n (fold (cos_step a b) [0..<n] (Num 0, Num 0, Num 0))"
    by simp
  show ?case
  proof (cases "length b < n")
    case True
    then have "fold (cos_step a b) [0..<n] (Num 0, Num 0, Num 0) = (NaN, Num (sumsq (take n a)), NaN)"
      using Suc.IH la by simp
    then show ?thesis using la True unfolding unroll
      by (simp add: ta sumsq_snoc cos_step_def at_index_def)
  next
    case False
    with Suc.prems have eq: "n = length b" by simp
    have "fold (cos_step a b) [0..<n] (Num 0, Num 0, Num 0) =
      (Num (dot (take n a) (take n b)), Num (sumsq (take n a)), Num (sumsq (take n b)))"
      using cos_fold_prefix [of n a b] la eq by simp
    then show ?thesis using la eq unfolding unroll
      by (simp add: take_Suc_conv_app_nth sumsq_snoc cos_step_def at_index_def)
  qed
qed

lemma cos_equal_length:
  "length a = length b \<Longrightarrow>
   cosineSimilarity a b = jdiv (Num (dot a b)) (Num (euclid_norm a * euclid_norm b))"
  using cos_fold_prefix [of "length a" a b] sumsq_nonneg [of a] sumsq_nonneg [of b]
  by (simp add: cosineSimilarity_def euclid_norm_def)

lemma cos_longer:
  "length a \<le> length b \<Longrightarrow> cosineSimilarity a b = cosineSimilarity a (take (length a) b)"
  using cos_fold_prefix [of "length a" a b] cos_fold_prefix [of "length a" a "take (length a) b"]
  by (simp add: cosineSimilarity_def)

lemma cos_shorter: "length b < length a \<Longrightarrow> cosineSimilarity a b = NaN"
  using cos_fold_short [of b "length a" a] sumsq_nonneg [of a]
  by (simp add: cosineSimilarity_def)

text \<open>The Cauchy-Schwarz inequality, for the bound on the quotient.\<close>

lemma cauchy_schwarz_list:
  "length a = length b \<Longrightarrow> (dot a b)\<^sup>2 \<le> sumsq a * sumsq b"
proof (induction a arbitrary: b)
  case Nil
  then show ?case by (simp add: dot_def sumsq_def)
next
  case (Cons x xs)
  then obtain y ys where b: "b = y # ys" and len: "length xs = length ys"
    by (cases b) auto
  define D where "D = dot xs ys"
  define A where "A = sumsq xs"
  define B where "B = sumsq ys"
  have ih: "D\<^sup>2 \<le> A * B" unfolding D_def A_def B_def by (rule Cons.IH [OF len])
  have A0: "0 \<le> A" and B0: "0 \<le> B" unfolding A_def B_def by (rule sumsq_nonneg)+
  have e1: "dot (x # xs) b = D + x * y" by (simp add: b dot_def D_def)
  have e2: "sumsq (x # xs) = A + x * x" by (simp add: sumsq_def A_def)
  have e3: "sumsq b = B + y * y" by (simp add: b sumsq_def B_def)
  have key: "2 * D * (x * y) \<le> A * (y * y) + B * (x * x)"
  proof -
    have "(2 * D * (x * y))\<^sup>2 \<le> (A * (y * y) + B * (x * x))\<^sup>2"
    proof -
      have "(2 * D * (x * y))\<^sup>2 = 4 * D\<^sup>2 * (x * y)\<^sup>2" by (simp add: power2_eq_square algebra_simps)
      also have "\<dots> \<le> 4 * (A * B) * (x * y)\<^sup>2"
        using ih by (simp add: mult_right_mono)
      also have "\<dots> \<le> (A * (y * y) + B * (x * x))\<^sup>2"
      proof -
        have "0 \<le> (A * (y * y) - B * (x * x))\<^sup>2" by simp
        then show ?thesis by (simp add: power2_eq_square algebra_simps)
      qed
      finally show ?thesis .
    qed
    moreover have "0 \<le> A * (y * y) + B * (x * x)" using A0 B0 by simp
    ultimately show ?thesis
      by (smt (verit) power2_le_imp_le)
  qed
  have "(D + x * y)\<^sup>2 = D\<^sup>2 + 2 * D * (x * y) + (x * y)\<^sup>2"
    by (simp add: power2_eq_square algebra_simps)
  also have "\<dots> \<le> A * B + (A * (y * y) + B * (x * x)) + (x * y)\<^sup>2"
    using ih key by simp
  also have "\<dots> = (A + x * x) * (B + y * y)"
    by (simp add: power2_eq_square algebra_simps)
  finally show ?case by (simp add: e1 e2 e3)
qed

lemma cos_zero_norm:
  assumes "euclid_norm a = 0 \<or> euclid_norm b = 0"
  shows "cosineSimilarity a b = NaN"
proof (cases "length b < length a")
  case True
  then show ?thesis by (rule cos_shorter)
next
  case False
  define b' where "b' = take (length a) b"
  from False have len: "length a = length b'" by (simp add: b'_def)
  have eq: "cosineSimilarity a b = jdiv (Num (dot a b')) (Num (euclid_norm a * euclid_norm b'))"
    using False cos_longer [of a b] cos_equal_length [OF len] by (simp add: b'_def)
  from assms show ?thesis
  proof
    assume a0: "euclid_norm a = 0"
    then have "dot a b' = 0" by (simp add: euclid_norm_zero_iff dot_zero_left)
    with a0 show ?thesis by (simp add: eq)
  next
    assume "euclid_norm b = 0"
    then have "\<forall>y\<in>set b'. y = 0"
      unfolding b'_def euclid_norm_zero_iff by (meson in_set_takeD)
    then have "dot a b' = 0" and "euclid_norm b' = 0"
      by (simp_all add: euclid_norm_zero_iff dot_zero_right)
    then show ?thesis by (simp add: eq)
  qed
qed

lemma cos_in_range:
  assumes len: "length a = length b" and na: "euclid_norm a \<noteq> 0" and nb: "euclid_norm b \<noteq> 0"
  shows "\<exists>r. cosineSimilarity a b = Num r \<and> - 1 \<le> r \<and> r \<le> 1"
proof -
  define p where "p = euclid_norm a * euclid_norm b"
  have pa: "0 < euclid_norm a" and pb: "0 < euclid_norm b"
    using na nb sumsq_nonneg [of a] sumsq_nonneg [of b] by (simp_all add: euclid_norm_def)
  then have ppos: "0 < p" by (simp add: p_def)
  have "p\<^sup>2 = sumsq a * sumsq b"
    using sumsq_nonneg [of a] sumsq_nonneg [of b]
    by (simp add: p_def euclid_norm_def power_mult_distrib)
  with cauchy_schwarz_list [OF len] have "(dot a b)\<^sup>2 \<le> p\<^sup>2" by simp
  then have "\<bar>dot a b\<bar> \<le> p" using ppos by (simp add: abs_le_square_iff [symmetric])
  then have "- 1 \<le> dot a b / p \<and> dot a b / p \<le> 1"
    using ppos by (simp add: pos_le_divide_eq pos_divide_le_eq abs_le_iff)
  moreover have "cosineSimilarity a b = Num (dot a b / p)"
    using cos_equal_length [OF len] pa pb by (simp add: p_def)
  ultimately show ?thesis by blast
qed

lemma cos_self:
  assumes "euclid_norm a \<noteq> 0"
  shows "cosineSimilarity a a = Num 1"
proof -
  have "euclid_norm a * euclid_norm a = sumsq a"
    using sumsq_nonneg [of a] by (simp add: euclid_norm_def)
  moreover have "sumsq a \<noteq> 0" using assms by (simp add: euclid_norm_def)
  ultimately show ?thesis
    using cos_equal_length [of a a] by (simp add: dot_self)
qed

lemma cos_sym: "length a = length b \<Longrightarrow> cosineSimilarity a b = cosineSimilarity b a"
  by (simp add: cos_equal_length dot_commute mult.commute)





section \<open>Properties of the ranking\<close>

lemma cos_Num_or_NaN: "cosineSimilarity a b = NaN \<or> (\<exists>r. cosineSimilarity a b = Num r)"
proof (cases "length b < length a")
  case True
  then show ?thesis by (simp add: cos_shorter)
next
  case False
  define b' where "b' = take (length a) b"
  from False have len: "length a = length b'" by (simp add: b'_def)
  have same: "cosineSimilarity a b = cosineSimilarity a b'"
    using False cos_longer [of a b] by (simp add: b'_def)
  show ?thesis
  proof (cases "euclid_norm a = 0 \<or> euclid_norm b' = 0")
    case True
    then show ?thesis using cos_zero_norm [of a b'] same by simp
  next
    case False
    then show ?thesis using cos_equal_length [OF len] same by simp
  qed
qed

lemma set_js_insert: "set (js_insert cmp x ys) = insert x (set ys)"
  by (induction ys) auto

lemma length_js_insert: "length (js_insert cmp x ys) = Suc (length ys)"
  by (induction ys) auto

lemma js_sort_Cons: "js_sort cmp (x # xs) = js_insert cmp x (js_sort cmp xs)"
  by (simp add: js_sort_def)

lemma set_js_sort: "set (js_sort cmp xs) = set xs"
  by (induction xs) (simp_all add: js_sort_Cons set_js_insert, simp add: js_sort_def)

lemma length_js_sort: "length (js_sort cmp xs) = length xs"
  by (induction xs) (simp_all add: js_sort_Cons length_js_insert, simp add: js_sort_def)

lemma cmp_numeric:
  "numeric x \<Longrightarrow> numeric y \<Longrightarrow>
   jgt (by_similarity_desc x y) (Num 0) = jgt (similarity y) (similarity x)"
  by (auto simp: numeric_def by_similarity_desc_def jsub_def)

lemma ranks_before_trans_ge:
  assumes "numeric x" "numeric y" "numeric z"
    and "\<not> jgt (similarity y) (similarity x)" and "ranks_before y z" and "index x < index z"
  shows "ranks_before x z"
  using assms by (auto simp: numeric_def ranks_before_def)

lemma sorted_js_insert:
  assumes "sorted_wrt ranks_before ys" and "\<forall>y\<in>set ys. index x < index y"
    and "numeric x" and "\<forall>y\<in>set ys. numeric y"
  shows "sorted_wrt ranks_before (js_insert by_similarity_desc x ys)"
  using assms
proof (induction ys)
  case Nil
  then show ?case by simp
next
  case (Cons y ys)
  have ny: "numeric y" using Cons.prems by simp
  show ?case
  proof (cases "jgt (similarity y) (similarity x)")
    case True
    then have "ranks_before y x" by (simp add: ranks_before_def)
    moreover have "sorted_wrt ranks_before (js_insert by_similarity_desc x ys)"
      using Cons by simp
    ultimately show ?thesis
      using True Cons.prems ny by (auto simp: cmp_numeric set_js_insert)
  next
    case False
    have xy: "ranks_before x y"
      using False Cons.prems ny by (auto simp: numeric_def ranks_before_def)
    have "\<forall>z\<in>set ys. ranks_before x z"
    proof
      fix z assume z: "z \<in> set ys"
      with Cons.prems have "ranks_before y z" "index x < index z" "numeric z" by auto
      then show "ranks_before x z"
        using ranks_before_trans_ge [of x y z] False ny Cons.prems(3) by blast
    qed
    then show ?thesis
      using False xy Cons.prems ny by (simp add: cmp_numeric)
  qed
qed

lemma sorted_js_sort:
  assumes "sorted_wrt (\<lambda>x y. index x < index y) xs" and "\<forall>x\<in>set xs. numeric x"
  shows "sorted_wrt ranks_before (js_sort by_similarity_desc xs)"
  using assms
proof (induction xs)
  case Nil
  then show ?case by (simp add: js_sort_def)
next
  case (Cons x xs)
  then show ?case
    by (simp add: js_sort_Cons sorted_js_insert set_js_sort)
qed

lemma index_similarities: "map index (similarities q vd) = [0..<length (embeddings vd)]"
  by (simp add: similarities_def comp_def)

lemma sorted_index_similarities:
  "sorted_wrt (\<lambda>x y. index x < index y) (similarities q vd)"
proof -
  have "sorted_wrt (<) (map index (similarities q vd))"
    by (simp add: index_similarities)
  then show ?thesis by (simp add: sorted_wrt_map)
qed

lemma in_similarities:
  "x \<in> set (similarities q vd) \<longleftrightarrow>
   (\<exists>i<length (embeddings vd). x = \<lparr>chunk = chunk_at (chunks vd) i,
       similarity = cosineSimilarity q (embeddings vd ! i), index = i\<rparr>)"
  by (auto simp: similarities_def)


lemma jge_Num: "jge (Num a) (Num b) = (b \<le> a)"
  by (auto simp: jge_def)

lemma ranks_before_jge: "numeric x \<Longrightarrow> numeric y \<Longrightarrow> ranks_before x y \<Longrightarrow> jge (similarity x) (similarity y)"
  by (auto simp: numeric_def ranks_before_def jge_Num)

lemma ranks_before_tie:
  "numeric x \<Longrightarrow> ranks_before x y \<Longrightarrow> similarity x = similarity y \<Longrightarrow> index x < index y"
  by (auto simp: numeric_def ranks_before_def)

text \<open>
  C2 (amended). For a session (as many embeddings as chunks) in which no score is NaN,
  \<open>findRelevantChunks\<close> returns \<open>min K n\<close> entries, each a chunk with its own cosine score, no
  chunk twice; the scores are in non-increasing order; of two entries with the same score the
  earlier chunk comes first; no chunk left out scores higher than a chunk returned; and for
  \<open>K\<close> at least the number of chunks every chunk is returned.
\<close>

theorem findRelevantChunks_ranked:
  assumes inv: "length (embeddings vd) = length (chunks vd)"
    and nonan: "\<forall>e\<in>set (embeddings vd). cosineSimilarity q e \<noteq> NaN"
  shows "length (findRelevantChunks q vd K) = min K (length (chunks vd))
    \<and> (\<forall>x\<in>set (findRelevantChunks q vd K).
          index x < length (chunks vd) \<and> chunk x = Some (chunks vd ! index x)
          \<and> similarity x = cosineSimilarity q (embeddings vd ! index x))
    \<and> distinct (map index (findRelevantChunks q vd K))
    \<and> (\<forall>i j. i < j \<and> j < length (findRelevantChunks q vd K) \<longrightarrow>
          jge (similarity (findRelevantChunks q vd K ! i)) (similarity (findRelevantChunks q vd K ! j)))
    \<and> (\<forall>i j. i < j \<and> j < length (findRelevantChunks q vd K)
            \<and> similarity (findRelevantChunks q vd K ! i) = similarity (findRelevantChunks q vd K ! j) \<longrightarrow>
          index (findRelevantChunks q vd K ! i) < index (findRelevantChunks q vd K ! j))
    \<and> (\<forall>x\<in>set (findRelevantChunks q vd K). \<forall>y\<in>set (similarities q vd).
          y \<notin> set (findRelevantChunks q vd K) \<longrightarrow> jge (similarity x) (similarity y))
    \<and> (length (chunks vd) \<le> K \<longrightarrow>
          length (findRelevantChunks q vd K) = length (chunks vd)
          \<and> index ` set (findRelevantChunks q vd K) = {0..<length (chunks vd)})"
proof -
  define sims where "sims = similarities q vd"
  define S where "S = js_sort by_similarity_desc sims"
  define r where "r = findRelevantChunks q vd K"
  have r: "r = take K S" by (simp add: r_def S_def sims_def findRelevantChunks_def)
  have len_sims: "length sims = length (chunks vd)" by (simp add: sims_def similarities_def inv)
  have num_sims: "\<forall>x\<in>set sims. numeric x"
  proof
    fix x assume "x \<in> set sims"
    then obtain i where i: "i < length (embeddings vd)"
      and x: "similarity x = cosineSimilarity q (embeddings vd ! i)"
      unfolding sims_def in_similarities by auto
    from i nonan have "cosineSimilarity q (embeddings vd ! i) \<noteq> NaN" by simp
    with cos_Num_or_NaN [of q "embeddings vd ! i"] x show "numeric x"
      by (auto simp: numeric_def)
  qed
  have setS: "set S = set sims" by (simp add: S_def set_js_sort)
  have lenS: "length S = length (chunks vd)" by (simp add: S_def length_js_sort len_sims)
  have sortedS: "sorted_wrt ranks_before S"
    unfolding S_def sims_def
    using sorted_js_sort [OF sorted_index_similarities] num_sims [unfolded sims_def] by blast
  have sub: "set r \<subseteq> set sims" using setS set_take_subset [of K S] by (simp add: r)
  have num_r: "\<forall>x\<in>set r. numeric x" using sub num_sims by blast
  have sorted_r: "sorted_wrt ranks_before r" unfolding r using sortedS by (rule sorted_wrt_take)
  have c1: "length r = min K (length (chunks vd))" by (simp add: r lenS min.commute)
  have c2: "\<forall>x\<in>set r. index x < length (chunks vd) \<and> chunk x = Some (chunks vd ! index x)
          \<and> similarity x = cosineSimilarity q (embeddings vd ! index x)"
  proof
    fix x assume "x \<in> set r"
    with sub have "x \<in> set (similarities q vd)" by (auto simp: sims_def)
    then show "index x < length (chunks vd) \<and> chunk x = Some (chunks vd ! index x)
          \<and> similarity x = cosineSimilarity q (embeddings vd ! index x)"
      unfolding in_similarities using inv by (auto simp: chunk_at_def)
  qed
  have distS: "distinct (map index S)"
  proof -
    have "distinct (map index sims)" by (simp add: sims_def index_similarities)
    then have "card (index ` set sims) = length sims"
      by (metis distinct_card length_map list.set_map)
    then have "card (set (map index S)) = length (map index S)"
      by (simp add: setS lenS len_sims)
    then show ?thesis by (rule card_distinct)
  qed
  have c3: "distinct (map index r)" unfolding r take_map [symmetric] using distS by (rule distinct_take)
  have pair: "\<And>i j. i < j \<Longrightarrow> j < length r \<Longrightarrow> ranks_before (r ! i) (r ! j)"
    using sorted_r by (simp add: sorted_wrt_iff_nth_less)
  have c4: "\<forall>i j. i < j \<and> j < length r \<longrightarrow> jge (similarity (r ! i)) (similarity (r ! j))"
  proof (intro allI impI)
    fix i j assume ij: "i < j \<and> j < length r"
    then have "ranks_before (r ! i) (r ! j)" using pair by blast
    moreover have "numeric (r ! i)" "numeric (r ! j)" using ij num_r by simp_all
    ultimately show "jge (similarity (r ! i)) (similarity (r ! j))" by (simp add: ranks_before_jge)
  qed
  have c5: "\<forall>i j. i < j \<and> j < length r \<and> similarity (r ! i) = similarity (r ! j) \<longrightarrow>
          index (r ! i) < index (r ! j)"
  proof (intro allI impI)
    fix i j assume ij: "i < j \<and> j < length r \<and> similarity (r ! i) = similarity (r ! j)"
    then have "ranks_before (r ! i) (r ! j)" using pair by blast
    moreover have "numeric (r ! i)" using ij num_r by simp
    ultimately show "index (r ! i) < index (r ! j)" using ij by (simp add: ranks_before_tie)
  qed
  have c6: "\<forall>x\<in>set r. \<forall>y\<in>set (similarities q vd). y \<notin> set r \<longrightarrow> jge (similarity x) (similarity y)"
  proof (intro ballI impI)
    fix x y assume x: "x \<in> set r" and y: "y \<in> set (similarities q vd)" and ny: "y \<notin> set r"
    have "sorted_wrt ranks_before (take K S @ drop K S)" using sortedS by simp
    then have split: "\<forall>a\<in>set (take K S). \<forall>b\<in>set (drop K S). ranks_before a b"
      unfolding sorted_wrt_append by blast
    have "y \<in> set S" using y setS by (simp add: sims_def)
    then have "y \<in> set (take K S) \<union> set (drop K S)" by (metis append_take_drop_id set_append)
    with ny have "y \<in> set (drop K S)" by (simp add: r)
    with split x have "ranks_before x y" by (simp add: r)
    moreover have "numeric x" using x num_r by simp
    moreover have "numeric y" using y num_sims by (simp add: sims_def)
    ultimately show "jge (similarity x) (similarity y)" by (simp add: ranks_before_jge)
  qed
  have c7: "length (chunks vd) \<le> K \<longrightarrow>
          length r = length (chunks vd) \<and> index ` set r = {0..<length (chunks vd)}"
  proof
    assume "length (chunks vd) \<le> K"
    then have "r = S" by (simp add: r lenS)
    moreover have "index ` set sims = {0..<length (chunks vd)}"
      using index_similarities [of q vd] inv by (metis atLeastLessThan_upt list.set_map sims_def)
    ultimately show "length r = length (chunks vd) \<and> index ` set r = {0..<length (chunks vd)}"
      by (simp add: lenS setS)
  qed
  from c1 c2 c3 c4 c5 c6 c7 show ?thesis unfolding r_def by blast
qed


lemma upt_3: "[0..<3] = [0, 1, 2]"
  by (simp add: upt_rec)

lemma cos_examples:
  "cosineSimilarity [1, 0] [0, 1] = Num 0"
  "cosineSimilarity [1, 0] [1, 0] = Num 1"
  "cosineSimilarity [1, 0] [0, 0] = NaN"
  by (simp_all add: cos_equal_length dot_def euclid_norm_def sumsq_def)

lemma ranked_example:
  "map (\<lambda>x. (index x, similarity x)) (findRelevantChunks [1, 0] (example_video [[0, 1], [1, 0], [1, 0]]) 2)
     = [(1, Num 1), (2, Num 1)]"
  by (simp add: findRelevantChunks_def similarities_def example_video_def upt_3 cos_examples
      js_sort_def by_similarity_desc_def jsub_def)

lemma unranked_example:
  "map (\<lambda>x. (index x, similarity x)) (findRelevantChunks [1, 0] (example_video [[0, 1], [0, 0], [1, 0]]) 3)
     = [(0, Num 0), (1, NaN), (2, Num 1)]"
  by (simp add: findRelevantChunks_def similarities_def example_video_def upt_3 cos_examples
      js_sort_def by_similarity_desc_def jsub_def)

theorem findRelevantChunks_ranked_witness:
  "length (embeddings (example_video [[0, 1], [1, 0], [1, 0]]))
      = length (chunks (example_video [[0, 1], [1, 0], [1, 0]]))
   \<and> cosineSimilarity [1, 0] [0, 1] \<noteq> NaN \<and> cosineSimilarity [1, 0] [1, 0] \<noteq> NaN
   \<and> length (findRelevantChunks [1, 0] (example_video [[0, 1], [1, 0], [1, 0]]) 2) = 2
   \<and> jge (similarity (findRelevantChunks [1, 0] (example_video [[0, 1], [1, 0], [1, 0]]) 2 ! 0))
          (similarity (findRelevantChunks [1, 0] (example_video [[0, 1], [1, 0], [1, 0]]) 2 ! 1))
   \<and> map index (findRelevantChunks [1, 0] (example_video [[0, 1], [1, 0], [1, 0]]) 2) = [1, 2]"
proof -
  let ?vd = "example_video [[0, 1], [1, 0], [1, 0]]"
  have inv: "length (embeddings ?vd) = length (chunks ?vd)" by (simp add: example_video_def)
  have nonan: "\<forall>e\<in>set (embeddings ?vd). cosineSimilarity [1, 0] e \<noteq> NaN"
    by (simp add: example_video_def cos_examples)
  note t = findRelevantChunks_ranked [OF inv nonan, of 2]
  have l: "length (findRelevantChunks [1, 0] ?vd 2) = 2"
    using t by (simp add: example_video_def)
  have q: "\<forall>i j. i < j \<and> j < length (findRelevantChunks [1, 0] ?vd 2) \<longrightarrow>
      jge (similarity (findRelevantChunks [1, 0] ?vd 2 ! i)) (similarity (findRelevantChunks [1, 0] ?vd 2 ! j))"
    using t by blast
  have o: "jge (similarity (findRelevantChunks [1, 0] ?vd 2 ! 0)) (similarity (findRelevantChunks [1, 0] ?vd 2 ! 1))"
    using q [rule_format, of 0 1] l by simp
  have m: "map index (findRelevantChunks [1, 0] ?vd 2) = [1, 2]"
    using arg_cong [OF ranked_example, of "map fst"] by (simp add: comp_def)
  show ?thesis using inv l o m by (simp add: cos_examples)
qed

text \<open>
  As stated for every query and every session the claim fails: a zero vector among the
  embeddings scores NaN, every comparison with it counts as a tie, and the chunks around it
  keep their places. Here the scores come out as 0, NaN, 1, and the best chunk is not in the
  top 1.
\<close>

theorem findRelevantChunks_NaN_counterexample:
  "map similarity (findRelevantChunks [1, 0] (example_video [[0, 1], [0, 0], [1, 0]]) 3)
      = [Num 0, NaN, Num 1]
   \<and> map index (findRelevantChunks [1, 0] (example_video [[0, 1], [0, 0], [1, 0]]) 1) = [0]
   \<and> \<not> (\<forall>i j. i < j \<and> j < length (findRelevantChunks [1, 0] (example_video [[0, 1], [0, 0], [1, 0]]) 3) \<longrightarrow>
          jge (similarity (findRelevantChunks [1, 0] (example_video [[0, 1], [0, 0], [1, 0]]) 3 ! i))
              (similarity (findRelevantChunks [1, 0] (example_video [[0, 1], [0, 0], [1, 0]]) 3 ! j)))"
proof -
  let ?r = "findRelevantChunks [1, 0] (example_video [[0, 1], [0, 0], [1, 0]]) 3"
  have s: "map similarity ?r = [Num 0, NaN, Num 1]"
    by (simp add: findRelevantChunks_def similarities_def example_video_def upt_3 cos_examples
      js_sort_def by_similarity_desc_def jsub_def)
  have f: "map index (findRelevantChunks [1, 0] (example_video [[0, 1], [0, 0], [1, 0]]) 1) = [0]"
    by (simp add: findRelevantChunks_def similarities_def example_video_def upt_3 cos_examples
      js_sort_def by_similarity_desc_def jsub_def)
  have len: "length ?r = 3" using arg_cong [OF s, of length] by simp
  have n0: "similarity (?r ! 0) = Num 0" using arg_cong [OF s, of "\<lambda>l. l ! 0"] len by simp
  have n2: "similarity (?r ! 2) = Num 1" using arg_cong [OF s, of "\<lambda>l. l ! 2"] len by simp
  have "\<not> jge (similarity (?r ! 0)) (similarity (?r ! 2))" by (simp add: n0 n2 jge_Num)
  then have "\<not> (\<forall>i j. i < j \<and> j < length ?r \<longrightarrow> jge (similarity (?r ! i)) (similarity (?r ! j)))"
    using len by (metis zero_less_numeral numeral_2_eq_2 lessI numeral_3_eq_3)
  with s f show ?thesis by blast
qed

section \<open>Properties of the chunker\<close>

lemma trim_Nil_iff: "trim s = [] \<longleftrightarrow> (\<forall>c\<in>set s. is_space c)"
proof -
  define d where "d = dropWhile is_space s"
  have step: "dropWhile is_space (rev d) = [] \<longleftrightarrow> d = []"
  proof (cases "d = []")
    case True
    then show ?thesis by simp
  next
    case False
    then have "\<not> is_space (hd d)" unfolding d_def by (rule hd_dropWhile)
    moreover have "hd d \<in> set (rev d)" using False by simp
    ultimately have "\<not> (\<forall>x\<in>set (rev d). is_space x)" by blast
    then show ?thesis using False by (simp only: dropWhile_eq_Nil_conv)
  qed
  have "trim s = [] \<longleftrightarrow> d = []"
    by (simp only: trim_def d_def [symmetric] rev_is_Nil_conv step)
  then show ?thesis by (simp add: d_def)
qed

lemma prefix_trim: "prefix (trim b) (dropWhile is_space b)"
  unfolding trim_def using suffix_dropWhile [of is_space "rev (dropWhile is_space b)"]
  by (simp add: suffix_to_prefix)

lemma rev_dropWhile_rev_id: "xs \<noteq> [] \<Longrightarrow> \<not> P (last xs) \<Longrightarrow> rev (dropWhile P (rev xs)) = xs"
  by (simp add: dropWhile_eq_self_iff [THEN iffD2] hd_rev)

lemma trim_keep_tail:
  assumes "r \<noteq> []" and "\<not> is_space (last r)"
  shows "trim (b @ r) = dropWhile is_space (b @ r)"
proof -
  define d where "d = dropWhile is_space (b @ r)"
  have "last r \<in> set (b @ r)" using assms(1) by simp
  then have ne: "d \<noteq> []" unfolding d_def using assms(2) by (auto simp del: set_append)
  have "suffix d (b @ r)" unfolding d_def by (rule suffix_dropWhile)
  then obtain p where "b @ r = p @ d" by (auto simp: suffix_def)
  then have "last d = last (b @ r)" using ne by (metis last_appendR)
  then have "\<not> is_space (last d)" using assms by simp
  then show ?thesis unfolding trim_def d_def [symmetric] using ne by (rule rev_dropWhile_rev_id [rotated])
qed

lemma sublist_trim_extend:
  assumes "sublist x (trim b)" and "r \<noteq> []" and "\<not> is_space (last r)"
  shows "sublist x (trim (b @ r))"
proof (cases "\<forall>c\<in>set b. is_space c")
  case True
  then have "trim b = []" by (simp add: trim_Nil_iff)
  with assms(1) show ?thesis by simp
next
  case False
  then have "dropWhile is_space (b @ r) = dropWhile is_space b @ r" by auto
  then have eq: "trim (b @ r) = dropWhile is_space b @ r" using assms by (simp add: trim_keep_tail)
  have "sublist x (dropWhile is_space b)"
    using assms(1) prefix_trim [of b] by (meson prefix_imp_sublist sublist_order.order_trans)
  then show ?thesis unfolding eq by (meson sublist_append_rightI sublist_order.order_trans)
qed

lemma suffix_dropWhile_solid:
  "s \<noteq> [] \<Longrightarrow> \<not> P (hd s) \<Longrightarrow> suffix s (dropWhile P (p @ s))"
proof (induction p)
  case Nil
  then show ?case by (simp add: dropWhile_eq_self_iff [THEN iffD2])
next
  case (Cons c p)
  then show ?case by (auto simp: suffix_Cons suffix_append)
qed

lemma sublist_trim_new:
  assumes "solid s"
  shows "sublist s (trim (p @ s))"
proof -
  from assms have "trim (p @ s) = dropWhile is_space (p @ s)"
    by (simp add: solid_def trim_keep_tail)
  moreover have "suffix s (dropWhile is_space (p @ s))"
    using assms by (simp add: solid_def suffix_dropWhile_solid)
  ultimately show ?thesis by simp
qed

lemma solid_unit:
  assumes "trim u \<noteq> []"
  shows "solid (trim u @ ''.'')"
proof -
  define d where "d = dropWhile is_space u"
  have "prefix (trim u) d" unfolding d_def by (rule prefix_trim)
  then obtain z where d: "d = trim u @ z" by (auto simp: prefix_def)
  with assms have dne: "d \<noteq> []" by simp
  then have "\<not> is_space (hd d)" unfolding d_def by (rule hd_dropWhile)
  then have "\<not> is_space (hd (trim u))" using d assms by simp
  then show ?thesis using assms by (simp add: solid_def is_space_def)
qed


lemma split_char_not_Nil: "split_char c acc s \<noteq> []"
  by (induction s arbitrary: acc) auto

lemma join_with_Cons: "ys \<noteq> [] \<Longrightarrow> join_with sep (x # ys) = x @ sep @ join_with sep ys"
  by (cases ys) simp_all

lemma join_split_char: "join_with [c] (split_char c acc s) = acc @ s"
  by (induction s arbitrary: acc) (simp_all add: join_with_Cons split_char_not_Nil)

lemma carried_zero: "carried 0 b = b"
  using join_split_char [of "CHR '' ''" "[]" b] by (simp add: carried_def slice_last_def)

lemma carried_pos: "0 < ov \<Longrightarrow> carried ov b = last_words ov b"
  by (simp add: carried_def slice_last_def last_words_def Let_def)

lemma chunk_step_unit:
  "chunk_step L ov u (cs, buf, n) =
     (if buf \<noteq> [] \<and> L < length buf + length (trim u @ ''.'')
      then (cs @ [mk_chunk n buf], carried ov buf @ '' '' @ (trim u @ ''.''), Suc n)
      else (cs, (if buf = [] then trim u @ ''.'' else buf @ '' '' @ (trim u @ ''.'')), n))"
  by (simp add: chunk_step_def carried_def)


lemma fold_refines:
  "finish (fold (chunk_step L ov) raw (cs, buf, n)) =
     cs @ spec_chunks L (carried ov) n buf (map (\<lambda>s. trim s @ ''.'') raw)"
proof (induction raw arbitrary: cs buf n)
  case Nil
  then show ?case by (simp add: finish_def)
next
  case (Cons u raw)
  show ?case
  proof (cases "buf \<noteq> [] \<and> L < length buf + length (trim u @ ''.'')")
    case True
    have "chunk_step L ov u (cs, buf, n) =
        (cs @ [mk_chunk n buf], carried ov buf @ '' '' @ (trim u @ ''.''), Suc n)"
      using True by (simp add: chunk_step_unit)
    then show ?thesis using True Cons.IH by simp
  next
    case False
    have "chunk_step L ov u (cs, buf, n) =
        (cs, (if buf = [] then trim u @ ''.'' else buf @ '' '' @ (trim u @ ''.'')), n)"
      using False by (auto simp add: chunk_step_unit)
    then show ?thesis using False Cons.IH by auto
  qed
qed

lemma chunkText_refines:
  "chunkText t L ov = spec_chunks L (carried ov) 0 [] (sentence_units t)"
  using fold_refines [of L ov "sentences_of t" "[]" "[]" 0]
  by (simp add: chunkText_def finish_def sentence_units_def)

lemma spec_chunks_cong:
  "(\<And>b. f b = g b) \<Longrightarrow> spec_chunks L f n buf ss = spec_chunks L g n buf ss"
  by (induction ss arbitrary: n buf) simp_all

lemma upt_shift: "[n..<n + Suc k] = n # [Suc n..<Suc n + k]"
  using upt_conv_Cons [of n "n + Suc k"] by simp

lemma spec_chunks_ids:
  "map chunk_id (spec_chunks L f n buf ss) =
     map (\<lambda>i. ''chunk-'' @ show_nat i) [n..<n + length (spec_chunks L f n buf ss)]"
proof (induction ss arbitrary: n buf)
  case Nil
  then show ?case using upt_shift [of n 0] by (simp add: mk_chunk_def)
next
  case (Cons s ss)
  show ?case
  proof (cases "buf \<noteq> [] \<and> L < length buf + length s")
    case True
    define nb where "nb = f buf @ '' '' @ s"
    have res: "spec_chunks L f n buf (s # ss) = mk_chunk n buf # spec_chunks L f (Suc n) nb ss"
      using True by (simp add: nb_def)
    show ?thesis unfolding res
      using Cons.IH [of "Suc n" nb] upt_shift [of n "length (spec_chunks L f (Suc n) nb ss)"]
      by (simp add: mk_chunk_def)
  next
    case False
    define nb where "nb = (if buf = [] then s else buf @ '' '' @ s)"
    have res: "spec_chunks L f n buf (s # ss) = spec_chunks L f n nb ss"
      using False by (auto simp: nb_def)
    show ?thesis unfolding res using Cons.IH [of n nb] by simp
  qed
qed

lemma spec_chunks_covers:
  assumes "\<forall>s\<in>set ss. solid s"
  shows "(x \<noteq> [] \<and> sublist x (trim buf) \<longrightarrow> (\<exists>c\<in>set (spec_chunks L f n buf ss). sublist x (chunk_text c)))
       \<and> (\<forall>s\<in>set ss. \<exists>c\<in>set (spec_chunks L f n buf ss). sublist s (chunk_text c))"
  using assms
proof (induction ss arbitrary: x n buf)
  case Nil
  have "\<exists>c\<in>set (spec_chunks L f n buf []). sublist x (chunk_text c)"
    if x: "x \<noteq> []" "sublist x (trim buf)"
  proof -
    from x have "trim buf \<noteq> []" by auto
    then have "spec_chunks L f n buf [] = [mk_chunk n buf]" by simp
    moreover have "chunk_text (mk_chunk n buf) = trim buf" by (simp add: mk_chunk_def)
    ultimately show ?thesis using x(2) by simp
  qed
  then show ?case by simp
next
  case (Cons s ss)
  then have s: "solid s" and rest: "\<forall>s\<in>set ss. solid s" by simp_all
  have sne: "s \<noteq> []" and slast: "\<not> is_space (last s)" using s by (simp_all add: solid_def)
  show ?case
  proof (cases "buf \<noteq> [] \<and> L < length buf + length s")
    case True
    define nb where "nb = f buf @ '' '' @ s"
    define tl_chunks where "tl_chunks = spec_chunks L f (Suc n) nb ss"
    have res: "spec_chunks L f n buf (s # ss) = mk_chunk n buf # tl_chunks"
      using True by (simp add: nb_def tl_chunks_def)
    have "sublist s (trim nb)"
      using sublist_trim_new [OF s, of "f buf @ '' ''"] by (simp add: nb_def)
    with Cons.IH [OF rest, where x = s and buf = nb and n = "Suc n"] sne
    have a: "\<exists>c\<in>set tl_chunks. sublist s (chunk_text c)"
      unfolding tl_chunks_def by blast
    have b: "\<forall>s'\<in>set ss. \<exists>c\<in>set tl_chunks. sublist s' (chunk_text c)"
      using Cons.IH [OF rest, where x = s and buf = nb and n = "Suc n"]
      unfolding tl_chunks_def by blast
    have first: "chunk_text (mk_chunk n buf) = trim buf" by (simp add: mk_chunk_def)
    have p1: "x \<noteq> [] \<and> sublist x (trim buf) \<longrightarrow>
        (\<exists>c\<in>set (mk_chunk n buf # tl_chunks). sublist x (chunk_text c))"
      using first by simp
    have p2: "\<forall>s'\<in>set (s # ss). \<exists>c\<in>set (mk_chunk n buf # tl_chunks). sublist s' (chunk_text c)"
    proof
      fix s' assume "s' \<in> set (s # ss)"
      then have "\<exists>c\<in>set tl_chunks. sublist s' (chunk_text c)" using a b by auto
      then show "\<exists>c\<in>set (mk_chunk n buf # tl_chunks). sublist s' (chunk_text c)" by simp
    qed
    show ?thesis unfolding res using p1 p2 by (rule conjI)
  next
    case False
    define nb where "nb = (if buf = [] then s else buf @ '' '' @ s)"
    define out where "out = spec_chunks L f n nb ss"
    have res: "spec_chunks L f n buf (s # ss) = out"
      using False by (auto simp: nb_def out_def)
    have new: "sublist s (trim nb)"
      using sublist_trim_new [OF s, of "buf @ '' ''"] sublist_trim_new [OF s, of "[]"]
      by (simp add: nb_def)
    have keep: "sublist x (trim nb)" if x: "sublist x (trim buf)"
    proof (cases "buf = []")
      case True
      then show ?thesis using x by (simp add: trim_def)
    next
      case False
      then show ?thesis
        using sublist_trim_extend [OF x, of "'' '' @ s"] sne slast by (simp add: nb_def)
    qed
    note ih = Cons.IH [OF rest, where x = x and buf = nb and n = n, folded out_def]
    have ih_s: "\<exists>c\<in>set out. sublist s (chunk_text c)"
      using Cons.IH [OF rest, where x = s and buf = nb and n = n, folded out_def] new sne by blast
    have p1: "x \<noteq> [] \<and> sublist x (trim buf) \<longrightarrow> (\<exists>c\<in>set out. sublist x (chunk_text c))"
      using ih keep by blast
    have p2: "\<forall>s'\<in>set (s # ss). \<exists>c\<in>set out. sublist s' (chunk_text c)"
      using ih ih_s by simp
    show ?thesis unfolding res using p1 p2 by (rule conjI)
  qed
qed

lemma split_runs_free:
  "\<forall>c\<in>set acc. \<not> sep c \<Longrightarrow> \<forall>u\<in>set (split_runs sep acc t). \<forall>c\<in>set u. \<not> sep c"
proof (induction t arbitrary: acc)
  case Nil
  then show ?case by simp
next
  case (Cons c cs)
  show ?case
  proof (cases "sep c")
    case False
    then have "\<forall>c\<in>set (acc @ [c]). \<not> sep c" using Cons.prems by simp
    from Cons.IH [OF this] show ?thesis using False by simp
  next
    case True
    have fresh: "\<forall>u\<in>set (split_runs sep [] cs). \<forall>c\<in>set u. \<not> sep c"
      using Cons.IH [of "[]"] by simp
    have same: "\<forall>u\<in>set (split_runs sep acc cs). \<forall>c\<in>set u. \<not> sep c"
      using Cons.IH [OF Cons.prems] .
    show ?thesis
    proof (cases cs)
      case Nil
      then show ?thesis using True Cons.prems by simp
    next
      case (Cons d ds)
      show ?thesis
      proof (cases "sep d")
        case True
        have "split_runs sep acc (c # cs) = split_runs sep acc cs"
          using \<open>sep c\<close> True Cons by simp
        then show ?thesis using same by simp
      next
        case False
        have "split_runs sep acc (c # cs) = acc # split_runs sep [] cs"
          using \<open>sep c\<close> False Cons by simp
        then show ?thesis using fresh Cons.prems by simp
      qed
    qed
  qed
qed

lemma sentence_units_solid: "\<forall>s\<in>set (sentence_units t). solid s"
  by (auto simp: sentence_units_def sentences_of_def solid_unit)

lemma sentences_of_free: "\<forall>u\<in>set (sentences_of t). trim u \<noteq> [] \<and> (\<forall>c\<in>set u. \<not> is_terminator c)"
proof
  fix u assume u: "u \<in> set (sentences_of t)"
  then have "u \<in> set (split_runs is_terminator [] t)" by (simp add: sentences_of_def)
  with split_runs_free [of "[]" is_terminator t] have "\<forall>c\<in>set u. \<not> is_terminator c" by simp
  moreover from u have "trim u \<noteq> []" by (simp add: sentences_of_def)
  ultimately show "trim u \<noteq> [] \<and> (\<forall>c\<in>set u. \<not> is_terminator c)" by simp
qed


lemma chunk_examples:
  "chunkText ''Hello world! How are you?  Fine... ok'' 12 2 =
     [\<lparr>chunk_id = ''chunk-0'', chunk_text = ''Hello world.''\<rparr>,
      \<lparr>chunk_id = ''chunk-1'', chunk_text = ''Hello world. How are you.''\<rparr>,
      \<lparr>chunk_id = ''chunk-2'', chunk_text = ''are you. Fine.''\<rparr>,
      \<lparr>chunk_id = ''chunk-3'', chunk_text = ''you. Fine. ok.''\<rparr>]"
  "sentence_units ''Hello world! How are you?  Fine... ok'' =
     [''Hello world.'', ''How are you.'', ''Fine.'', ''ok.'']"
  "sentences_of ''Hello world! How are you?  Fine... ok'' =
     [''Hello world'', '' How are you'', ''  Fine'', '' ok'']"
  "sentence_units '' ..!  '' = []"
  by code_simp+



section \<open>Properties of answer synthesis\<close>

lemma marks_differ: "\<not> prefix cross_mark (check_mark @ s)" "\<not> prefix check_mark (cross_mark @ s)"
  by (simp_all add: check_mark_def cross_mark_def)

lemma found_prefix:
  "prefix check_mark (found_template t)" "\<not> prefix cross_mark (found_template t)"
  by (simp_all add: found_template_def marks_differ)

lemma not_covered_prefix:
  "prefix cross_mark (not_covered_template q t)" "\<not> prefix check_mark (not_covered_template q t)"
  by (simp_all add: not_covered_template_def marks_differ)

lemma relevant_similarities: "relevant rc = (\<exists>s\<in>set (map similarity rc). jgt s (Num (3 / 10)))"
  by (simp add: relevant_def)

lemma generateAnswer_demo:
  "no_key (apiKey e) \<Longrightarrow>
   generateAnswer e q rc t =
     (if relevant rc then Inr (found_template t) else Inr (not_covered_template q t))"
  by (simp add: generateAnswer_def relevant_def list_ex_iff)

text \<open>
  C1. Without an API key \<open>generateAnswer\<close> returns the "relevant content found" template,
  which begins with the check mark, if and only if some ranked entry has a similarity
  strictly greater than 0.3, and otherwise the "not covered" template, which begins with the
  cross mark; and two calls with the same question, title and list of similarity values give
  the same answer, whatever the chunks' texts.
\<close>

theorem generateAnswer_demo_threshold:
  assumes "no_key (apiKey e)"
  shows "((\<exists>item\<in>set rc. jgt (similarity item) (Num (3 / 10))) \<longrightarrow>
            generateAnswer e q rc t = Inr (found_template t))
    \<and> (\<not> (\<exists>item\<in>set rc. jgt (similarity item) (Num (3 / 10))) \<longrightarrow>
            generateAnswer e q rc t = Inr (not_covered_template q t))
    \<and> (\<exists>a. generateAnswer e q rc t = Inr a
          \<and> (prefix check_mark a \<longleftrightarrow> (\<exists>item\<in>set rc. jgt (similarity item) (Num (3 / 10))))
          \<and> (prefix cross_mark a \<longleftrightarrow> \<not> (\<exists>item\<in>set rc. jgt (similarity item) (Num (3 / 10)))))
    \<and> (\<forall>(e' :: env) (rc' :: scored list). no_key (apiKey e') \<and> map similarity rc' = map similarity rc \<longrightarrow>
          generateAnswer e' q rc' t = generateAnswer e q rc t)"
proof -
  note d = generateAnswer_demo [OF assms, of q rc t, unfolded relevant_def]
  have c1: "(\<exists>item\<in>set rc. jgt (similarity item) (Num (3 / 10))) \<longrightarrow>
            generateAnswer e q rc t = Inr (found_template t)"
    using d by simp
  have c2: "\<not> (\<exists>item\<in>set rc. jgt (similarity item) (Num (3 / 10))) \<longrightarrow>
            generateAnswer e q rc t = Inr (not_covered_template q t)"
    using d by simp
  have c3: "\<exists>a. generateAnswer e q rc t = Inr a
          \<and> (prefix check_mark a \<longleftrightarrow> (\<exists>item\<in>set rc. jgt (similarity item) (Num (3 / 10))))
          \<and> (prefix cross_mark a \<longleftrightarrow> \<not> (\<exists>item\<in>set rc. jgt (similarity item) (Num (3 / 10))))"
  proof (cases "\<exists>item\<in>set rc. jgt (similarity item) (Num (3 / 10))")
    case True
    then show ?thesis using c1 found_prefix [of t] by auto
  next
    case False
    then show ?thesis using c2 not_covered_prefix [of q t] by auto
  qed
  have c4: "\<forall>(e' :: env) (rc' :: scored list). no_key (apiKey e') \<and> map similarity rc' = map similarity rc \<longrightarrow>
          generateAnswer e' q rc' t = generateAnswer e q rc t"
  proof (intro allI impI)
    fix e' :: env and rc' :: "scored list"
    assume h: "no_key (apiKey e') \<and> map similarity rc' = map similarity rc"
    then have "relevant rc' = relevant rc" by (simp add: relevant_similarities)
    then show "generateAnswer e' q rc' t = generateAnswer e q rc t"
      using h assms by (simp add: generateAnswer_demo)
  qed
  from c1 c2 c3 c4 show ?thesis by (intro conjI)
qed

theorem generateAnswer_demo_threshold_witness:
  "no_key (apiKey demo_env)
   \<and> jgt (similarity (entry ''One.'' (Num (1 / 2)) 0)) (Num (3 / 10))
   \<and> generateAnswer demo_env ''why?'' [entry ''One.'' (Num (1 / 2)) 0, entry ''Two.'' NaN 1] ''Example''
       = Inr (found_template ''Example'')
   \<and> generateAnswer demo_env ''why?'' [entry ''One.'' (Num (3 / 10)) 0, entry ''Two.'' NaN 1] ''Example''
       = Inr (not_covered_template ''why?'' ''Example'')
   \<and> generateAnswer demo_env ''why?'' [entry ''Other.'' (Num (1 / 2)) 5, entry ''Text.'' NaN 7] ''Example''
       = generateAnswer demo_env ''why?'' [entry ''One.'' (Num (1 / 2)) 0, entry ''Two.'' NaN 1] ''Example''"
proof -
  have k: "no_key (apiKey demo_env)" by (simp add: no_key_def demo_env_def)
  note a = generateAnswer_demo_threshold [OF k, of "[entry ''One.'' (Num (1 / 2)) 0, entry ''Two.'' NaN 1]" "''why?''" "''Example''"]
  note b = generateAnswer_demo_threshold [OF k, of "[entry ''One.'' (Num (3 / 10)) 0, entry ''Two.'' NaN 1]" "''why?''" "''Example''"]
  have 1: "jgt (similarity (entry ''One.'' (Num (1 / 2)) 0)) (Num (3 / 10))" by (simp add: entry_def)
  have 2: "generateAnswer demo_env ''why?'' [entry ''One.'' (Num (1 / 2)) 0, entry ''Two.'' NaN 1] ''Example''
       = Inr (found_template ''Example'')"
    using a 1 by simp
  have 3: "generateAnswer demo_env ''why?'' [entry ''One.'' (Num (3 / 10)) 0, entry ''Two.'' NaN 1] ''Example''
       = Inr (not_covered_template ''why?'' ''Example'')"
    using b by (simp add: entry_def)
  have 4: "generateAnswer demo_env ''why?'' [entry ''Other.'' (Num (1 / 2)) 5, entry ''Text.'' NaN 7] ''Example''
       = generateAnswer demo_env ''why?'' [entry ''One.'' (Num (1 / 2)) 0, entry ''Two.'' NaN 1] ''Example''"
    using a k by (simp add: entry_def)
  from k 1 2 3 4 show ?thesis by (intro conjI)
qed

lemma chat_failed_answer_call:
  "\<forall>request. chat_create e request = Failed \<Longrightarrow> answer_call e q rc t = Failed"
  by (simp add: answer_call_def split: call.splits)

lemma generateAnswer_live:
  "\<not> no_key (apiKey e) \<Longrightarrow>
   generateAnswer e q rc t =
     (case answer_call e q rc t of
        Ok answer \<Rightarrow> Inr answer
      | Failed \<Rightarrow> Inl (Error ''Failed to generate answer. Please try again.''))"
  by (simp add: generateAnswer_def)

text \<open>
  C5 (amended). With a model configured, a failure of the model call in \<open>generateAnswer\<close>
  is thrown to the caller: the result is the error "Failed to generate answer", never an
  answer string, and \<open>askQuestion\<close> passes the error on. \<open>generateVideoSummary\<close> does not:
  it catches the failure and returns the string "Unable to generate video summary at this
  time."
\<close>

theorem synthesis_failure_surfaced:
  assumes "\<not> no_key (apiKey e)"
  shows "(answer_call e q rc t = Failed \<longrightarrow>
            generateAnswer e q rc t = Inl (Error ''Failed to generate answer. Please try again.''))
    \<and> (\<forall>a. generateAnswer e q rc t = Inr a \<longrightarrow> answer_call e q rc t = Ok a)
    \<and> ((\<forall>request. chat_create e request = Failed) \<longrightarrow>
          generateAnswer e q rc t = Inl (Error ''Failed to generate answer. Please try again.'')
          \<and> fst (askQuestion e drawn q vd) = Inl (Error ''Failed to generate answer. Please try again.''))
    \<and> (chat_create e (summary_request vd) = Failed \<longrightarrow>
          generateVideoSummary e vd = Inr ''Unable to generate video summary at this time.'')"
proof -
  note g = generateAnswer_live [OF assms]
  have c1: "answer_call e q rc t = Failed \<longrightarrow>
            generateAnswer e q rc t = Inl (Error ''Failed to generate answer. Please try again.'')"
    by (simp add: g)
  have c2: "\<forall>a. generateAnswer e q rc t = Inr a \<longrightarrow> answer_call e q rc t = Ok a"
    by (simp add: g split: call.splits)
  have c3: "(\<forall>request. chat_create e request = Failed) \<longrightarrow>
          generateAnswer e q rc t = Inl (Error ''Failed to generate answer. Please try again.'')
          \<and> fst (askQuestion e drawn q vd) = Inl (Error ''Failed to generate answer. Please try again.'')"
  proof
    assume f: "\<forall>request. chat_create e request = Failed"
    have "\<And>q rc t. generateAnswer e q rc t = Inl (Error ''Failed to generate answer. Please try again.'')"
      using chat_failed_answer_call [OF f] by (simp add: g)
    then show "generateAnswer e q rc t = Inl (Error ''Failed to generate answer. Please try again.'')
          \<and> fst (askQuestion e drawn q vd) = Inl (Error ''Failed to generate answer. Please try again.'')"
      by (simp add: askQuestion_def split: prod.splits)
  qed
  have c4: "chat_create e (summary_request vd) = Failed \<longrightarrow>
          generateVideoSummary e vd = Inr ''Unable to generate video summary at this time.''"
    using assms by (simp add: generateVideoSummary_def)
  from c1 c2 c3 c4 show ?thesis by (intro conjI)
qed

lemma failing_env_facts:
  "\<not> no_key (apiKey failing_env)" "\<forall>request. chat_create failing_env request = Failed"
  by (simp_all add: failing_env_def demo_env_def no_key_def)

theorem synthesis_failure_surfaced_witness:
  "\<not> no_key (apiKey failing_env)
   \<and> (\<forall>request. chat_create failing_env request = Failed)
   \<and> generateAnswer failing_env ''why?'' [entry ''One.'' (Num 1) 0] ''Example''
       = Inl (Error ''Failed to generate answer. Please try again.'')
   \<and> fst (askQuestion failing_env 0 ''why?'' (example_video [[1, 0], [0, 1], [1, 1]]))
       = Inl (Error ''Failed to generate answer. Please try again.'')
   \<and> generateVideoSummary failing_env (example_video [[1, 0], [0, 1], [1, 1]])
       = Inr ''Unable to generate video summary at this time.''"
  using synthesis_failure_surfaced [OF failing_env_facts(1),
      of "''why?''" "[entry ''One.'' (Num 1) 0]" "''Example''" 0 "example_video [[1, 0], [0, 1], [1, 1]]"]
    failing_env_facts
  by simp

text \<open>
  The claim extends the contract to the summary, where it fails: with a key configured and
  the chat endpoint failing, \<open>generateVideoSummary\<close> returns a string.
\<close>

theorem generateVideoSummary_degrades_counterexample:
  "\<not> no_key (apiKey failing_env)
   \<and> chat_create failing_env (summary_request (example_video [[1, 0], [0, 1], [1, 1]])) = Failed
   \<and> generateVideoSummary failing_env (example_video [[1, 0], [0, 1], [1, 1]])
       = Inr ''Unable to generate video summary at this time.''"
  using failing_env_facts by (simp add: generateVideoSummary_def)

section \<open>Properties of the embedder\<close>

lemma mock_vector_nth:
  "k < 1536 \<Longrightarrow> fst (mock_vector e d) ! k = math_random e (d + k) - 1 / 2"
  by (simp add: mock_vector_def)

lemma mock_embeddings_eq:
  "mock_embeddings e d cs =
     (map (\<lambda>i. map (\<lambda>k. math_random e (d + i * 1536 + k) - 1 / 2) [0..<1536]) [0..<length cs],
      d + 1536 * length cs)"
proof (induction cs arbitrary: d)
  case Nil
  then show ?case by simp
next
  case (Cons c cs)
  have shift: "map (\<lambda>i. map (\<lambda>k. math_random e (d + i * 1536 + k) - 1 / 2) [0..<1536]) [0..<Suc (length cs)]
      = map (\<lambda>k. math_random e (d + k) - 1 / 2) [0..<1536]
        # map (\<lambda>i. map (\<lambda>k. math_random e (d + 1536 + i * 1536 + k) - 1 / 2) [0..<1536]) [0..<length cs]"
    by (simp only: map_upt_Suc) (simp add: add.assoc)
  show ?case
    using Cons.IH [of "d + 1536"] by (simp add: mock_vector_def shift del: upt_Suc)
qed

text \<open>
  C8 (amended). Without a key, or when the provider fails, the embedder returns 1536 fresh
  draws of \<open>Math.random()\<close>, each less one half: the vector is a function of the random
  source alone and does not depend on the text embedded; for a list of chunks the draws are
  taken chunk after chunk.
\<close>

theorem fallback_embedding_draws:
  "(no_key (apiKey e) \<or> embeddings_create e 0 query = Failed \<longrightarrow>
      generateQueryEmbedding e drawn query
        = (map (\<lambda>k. math_random e (drawn + k) - 1 / 2) [0..<1536], drawn + 1536)
      \<and> length (fst (generateQueryEmbedding e drawn query)) = 1536)
   \<and> (no_key (apiKey e) \<longrightarrow>
        generateQueryEmbedding e drawn query' = generateQueryEmbedding e drawn query)
   \<and> (no_key (apiKey e) \<or> embed_all e 0 cs = Failed \<longrightarrow>
        generateEmbeddings e drawn cs
          = (map (\<lambda>i. map (\<lambda>k. math_random e (drawn + i * 1536 + k) - 1 / 2) [0..<1536])
               [0..<length cs],
             drawn + 1536 * length cs))"
proof -
  have q: "no_key (apiKey e) \<or> embeddings_create e 0 query = Failed \<Longrightarrow>
      generateQueryEmbedding e drawn query = mock_vector e drawn" for query
    by (auto simp: generateQueryEmbedding_def)
  have c1: "no_key (apiKey e) \<or> embeddings_create e 0 query = Failed \<longrightarrow>
      generateQueryEmbedding e drawn query
        = (map (\<lambda>k. math_random e (drawn + k) - 1 / 2) [0..<1536], drawn + 1536)
      \<and> length (fst (generateQueryEmbedding e drawn query)) = 1536"
    using q [of query] by (simp add: mock_vector_def)
  have c2: "no_key (apiKey e) \<longrightarrow>
        generateQueryEmbedding e drawn query' = generateQueryEmbedding e drawn query"
    using q [of query] q [of query'] by simp
  have c3: "no_key (apiKey e) \<or> embed_all e 0 cs = Failed \<longrightarrow>
        generateEmbeddings e drawn cs
          = (map (\<lambda>i. map (\<lambda>k. math_random e (drawn + i * 1536 + k) - 1 / 2) [0..<1536])
               [0..<length cs],
             drawn + 1536 * length cs)"
  proof
    assume "no_key (apiKey e) \<or> embed_all e 0 cs = Failed"
    then have "generateEmbeddings e drawn cs = mock_embeddings e drawn cs"
      by (auto simp: generateEmbeddings_def)
    then show "generateEmbeddings e drawn cs
          = (map (\<lambda>i. map (\<lambda>k. math_random e (drawn + i * 1536 + k) - 1 / 2) [0..<1536])
               [0..<length cs],
             drawn + 1536 * length cs)"
      by (simp only: mock_embeddings_eq)
  qed
  from c1 c2 c3 show ?thesis by (intro conjI)
qed

theorem fallback_embedding_draws_witness:
  "no_key (apiKey demo_env)
   \<and> generateQueryEmbedding demo_env 0 ''why?''
       = (map (\<lambda>k. math_random demo_env (0 + k) - 1 / 2) [0..<1536], 0 + 1536)
   \<and> length (fst (generateQueryEmbedding demo_env 0 ''why?'')) = 1536
   \<and> generateQueryEmbedding demo_env 0 ''something else'' = generateQueryEmbedding demo_env 0 ''why?''
   \<and> generateEmbeddings demo_env 0 [mk_chunk 0 ''One.'']
       = (map (\<lambda>i. map (\<lambda>k. math_random demo_env (0 + i * 1536 + k) - 1 / 2) [0..<1536])
            [0..<length [mk_chunk 0 ''One.'']],
          0 + 1536 * length [mk_chunk 0 ''One.''])"
proof -
  have k: "no_key (apiKey demo_env)" by (simp add: no_key_def demo_env_def)
  note t = fallback_embedding_draws [of demo_env "''why?''" 0 "''something else''" "[mk_chunk 0 ''One.'']"]
  have 1: "generateQueryEmbedding demo_env 0 ''why?''
       = (map (\<lambda>k. math_random demo_env (0 + k) - 1 / 2) [0..<1536], 0 + 1536)
      \<and> length (fst (generateQueryEmbedding demo_env 0 ''why?'')) = 1536"
    using t k by (elim conjE) (erule mp, rule disjI1)
  have 2: "generateQueryEmbedding demo_env 0 ''something else'' = generateQueryEmbedding demo_env 0 ''why?''"
    using t k by (elim conjE) (erule mp)
  have 3: "generateEmbeddings demo_env 0 [mk_chunk 0 ''One.'']
       = (map (\<lambda>i. map (\<lambda>k. math_random demo_env (0 + i * 1536 + k) - 1 / 2) [0..<1536])
            [0..<length [mk_chunk 0 ''One.'']],
          0 + 1536 * length [mk_chunk 0 ''One.''])"
    using t k by (elim conjE) (erule mp, rule disjI1)
  from k 1 2 3 show ?thesis by (intro conjI) (elim conjE, assumption)+
qed

text \<open>
  The fallback is not deterministic in the text: a second run on the same text takes the next
  1536 draws, and gives another vector as soon as the random source moves on.
\<close>

theorem fallback_not_deterministic_counterexample:
  "no_key (apiKey demo_env)
   \<and> fst (generateQueryEmbedding demo_env 0 ''same text'')
       \<noteq> fst (generateQueryEmbedding demo_env
               (snd (generateQueryEmbedding demo_env 0 ''same text'')) ''same text'')"
proof -
  have k: "no_key (apiKey demo_env)" by (simp add: no_key_def demo_env_def)
  have a: "generateQueryEmbedding demo_env 0 ''same text'' = mock_vector demo_env 0"
    using k by (simp add: generateQueryEmbedding_def)
  have s: "snd (mock_vector demo_env 0) = 1536" by (simp add: mock_vector_def)
  have b: "generateQueryEmbedding demo_env 1536 ''same text'' = mock_vector demo_env 1536"
    using k by (simp add: generateQueryEmbedding_def)
  have "fst (mock_vector demo_env 0) ! 0 = - 1 / 2"
    using mock_vector_nth [of 0 demo_env 0] by (simp add: demo_env_def)
  moreover have "fst (mock_vector demo_env 1536) ! 0 = - 1 / 4"
    using mock_vector_nth [of 0 demo_env 1536] by (simp add: demo_env_def)
  ultimately have "fst (mock_vector demo_env 0) ! 0 \<noteq> fst (mock_vector demo_env 1536) ! 0"
    by simp
  then have "fst (mock_vector demo_env 0) \<noteq> fst (mock_vector demo_env 1536)"
    by (rule contrapos_nn) (erule arg_cong)
  then show ?thesis unfolding a s b using k by (rule conjI [rotated])
qed

section \<open>Properties of video processing and of the application state\<close>

lemma embed_all_Ok:
  "embed_all e c cs = Ok es \<Longrightarrow>
   length es = length cs \<and> (\<forall>i<length cs. embeddings_create e (c + i) (chunk_text (cs ! i)) = Ok (es ! i))"
proof (induction cs arbitrary: c es)
  case Nil
  then show ?case by simp
next
  case (Cons x xs)
  from Cons.prems obtain v vs where v: "embeddings_create e c (chunk_text x) = Ok v"
    and vs: "embed_all e (Suc c) xs = Ok vs" and es: "es = v # vs"
    by (auto split: call.splits)
  from Cons.IH [OF vs] have len: "length vs = length xs"
    and nth: "\<forall>i<length xs. embeddings_create e (Suc c + i) (chunk_text (xs ! i)) = Ok (vs ! i)"
    by simp_all
  have "embeddings_create e (c + i) (chunk_text ((x # xs) ! i)) = Ok (es ! i)"
    if "i < length (x # xs)" for i
  proof (cases i)
    case 0
    then show ?thesis using v es by simp
  next
    case (Suc j)
    then show ?thesis using that nth es by simp
  qed
  then show ?case using len es by simp
qed

lemma substitutes_usable:
  "usable_transcript (Text rick_transcript) = Some rick_transcript"
  "usable_transcript (Text ml_transcript) = Some ml_transcript"
  "usable_transcript (Text react_transcript) = Some react_transcript"
  "usable_transcript (Text generic_transcript) = Some generic_transcript"
  by code_simp+

lemma substitutes_chunked:
  "chunkText rick_transcript 500 50 \<noteq> []"
  "chunkText ml_transcript 500 50 \<noteq> []"
  "chunkText react_transcript 500 50 \<noteq> []"
  "chunkText generic_transcript 500 50 \<noteq> []"
  by code_simp+

lemma example_ids:
  "extractVideoId ''https://youtu.be/dQw4w9WgXcQ'' = Some ''dQw4w9WgXcQ''"
  "extractVideoId ''not a url'' = None"
  by code_simp+


lemma processVideo_ok:
  assumes "extractVideoId url = Some v" and "getVideoMetadata e v = Inr ttl"
    and "usable_transcript (extractTranscript e v) = Some t" and "chunkText t 500 50 \<noteq> []"
  shows "processVideo e drawn url =
     (Inr (built e drawn v ttl t), [Processing], snd (generateEmbeddings e drawn (chunkText t 500 50)))"
  using assms by (simp add: processVideo_def built_def Let_def split: prod.splits)

lemma processVideo_Inr:
  assumes "fst (processVideo e drawn url) = Inr vd"
  shows "\<exists>v ttl t. extractVideoId url = Some v \<and> getVideoMetadata e v = Inr ttl
     \<and> usable_transcript (extractTranscript e v) = Some t \<and> chunkText t 500 50 \<noteq> []
     \<and> vd = built e drawn v ttl t"
proof (cases "extractVideoId url")
  case None
  then show ?thesis using assms by (simp add: processVideo_def)
next
  case (Some v)
  show ?thesis
  proof (cases "getVideoMetadata e v")
    case (Inl err)
    then show ?thesis using assms Some by (simp add: processVideo_def)
  next
    case (Inr ttl)
    show ?thesis
    proof (cases "usable_transcript (extractTranscript e v)")
      case None
      then show ?thesis using assms Some Inr by (simp add: processVideo_def)
    next
      case (Some t)
      show ?thesis
      proof (cases "chunkText t 500 50 = []")
        case True
        then show ?thesis using assms \<open>extractVideoId url = Some v\<close> Inr Some
          by (simp add: processVideo_def)
      next
        case False
        from processVideo_ok [OF \<open>extractVideoId url = Some v\<close> Inr Some False, of drawn] assms
        have "vd = built e drawn v ttl t" by simp
        then show ?thesis using \<open>extractVideoId url = Some v\<close> Inr Some False by blast
      qed
    qed
  qed
qed



lemma demo_run:
  "processVideo demo_env 0 ''https://youtu.be/dQw4w9WgXcQ'' =
     (Inr (built demo_env 0 ''dQw4w9WgXcQ'' ''Example'' rick_transcript), [Processing],
      snd (generateEmbeddings demo_env 0 (chunkText rick_transcript 500 50)))"
  by (rule processVideo_ok [OF example_ids(1) _ _ substitutes_chunked(1)])
    (simp_all add: demo_env_def extractTranscript_def mockTranscripts_def
      substitutes_usable del: usable_transcript.simps)

lemma live_run:
  "processVideo live_env 0 ''https://youtu.be/dQw4w9WgXcQ'' =
     (Inr (built live_env 0 ''dQw4w9WgXcQ'' ''Example'' rick_transcript), [Processing],
      snd (generateEmbeddings live_env 0 (chunkText rick_transcript 500 50)))"
  by (rule processVideo_ok [OF example_ids(1) _ _ substitutes_chunked(1)])
    (simp_all add: live_env_def demo_env_def extractTranscript_def mockTranscripts_def
      substitutes_usable del: usable_transcript.simps)

lemma embed_all_live: "embed_all live_env c cs \<noteq> Failed"
  by (induction cs arbitrary: c) (simp_all add: live_env_def demo_env_def split: call.splits)


lemma extractTranscript_failed:
  "fetchTranscript e v = Failed \<Longrightarrow>
   extractTranscript e v = (case mockTranscripts v of Some x \<Rightarrow> x | None \<Rightarrow> Text generic_transcript)"
  by (simp add: extractTranscript_def)

lemma substitute_cases:
  assumes "v \<noteq> ''constructor''"
  shows "\<exists>t. (case mockTranscripts v of Some x \<Rightarrow> x | None \<Rightarrow> Text generic_transcript) = Text t
     \<and> t \<in> {rick_transcript, ml_transcript, react_transcript, generic_transcript}"
  using assms by (simp add: mockTranscripts_def)

text \<open>
  C7 (amended). A fetched transcript shorter than 50 characters makes \<open>processVideo\<close> fail
  (with the "No transcript available" error once the metadata has been read). A failure of
  the transcript source does not: the mock transcript of the video, or else the generic one,
  takes the place of the text, and \<open>processVideo\<close> succeeds with it (for every identifier
  that is not the inherited property name \<open>constructor\<close>).
\<close>

theorem processVideo_transcript_precondition:
  "(extractVideoId url = Some v \<and> fetchTranscript e v = Ok t \<and> length t < 50 \<longrightarrow>
      (\<exists>err. fst (processVideo e drawn url) = Inl err)
      \<and> (\<forall>ttl. getVideoMetadata e v = Inr ttl \<longrightarrow>
            fst (processVideo e drawn url)
              = Inl (Error ''No transcript available for this video or transcript is too short'')))
   \<and> (extractVideoId url = Some v \<and> fetchTranscript e v = Failed \<and> v \<noteq> ''constructor''
        \<and> getVideoMetadata e v = Inr ttl \<longrightarrow>
        (\<exists>vd. fst (processVideo e drawn url) = Inr vd \<and> video_id vd = v
           \<and> Text (transcript vd)
                = (case mockTranscripts v of Some x \<Rightarrow> x | None \<Rightarrow> Text generic_transcript)))"
proof -
  have short: "(\<exists>err. fst (processVideo e drawn url) = Inl err)
      \<and> (\<forall>ttl. getVideoMetadata e v = Inr ttl \<longrightarrow>
            fst (processVideo e drawn url)
              = Inl (Error ''No transcript available for this video or transcript is too short''))"
    if h: "extractVideoId url = Some v \<and> fetchTranscript e v = Ok t \<and> length t < 50"
  proof -
    from h have u: "usable_transcript (extractTranscript e v) = None"
      by (simp add: extractTranscript_def)
    have a: "\<forall>ttl. getVideoMetadata e v = Inr ttl \<longrightarrow>
            fst (processVideo e drawn url)
              = Inl (Error ''No transcript available for this video or transcript is too short'')"
      using h u by (simp add: processVideo_def)
    have b: "\<exists>err. fst (processVideo e drawn url) = Inl err"
    proof (cases "getVideoMetadata e v")
      case (Inl err)
      then show ?thesis using h by (simp add: processVideo_def)
    next
      case (Inr ttl)
      then show ?thesis using a by simp
    qed
    from b a show ?thesis by (rule conjI)
  qed
  have subst: "\<exists>vd. fst (processVideo e drawn url) = Inr vd \<and> video_id vd = v
           \<and> Text (transcript vd)
                = (case mockTranscripts v of Some x \<Rightarrow> x | None \<Rightarrow> Text generic_transcript)"
    if h: "extractVideoId url = Some v \<and> fetchTranscript e v = Failed \<and> v \<noteq> ''constructor''
        \<and> getVideoMetadata e v = Inr ttl"
  proof -
    from h substitute_cases [of v] obtain s
      where s: "(case mockTranscripts v of Some x \<Rightarrow> x | None \<Rightarrow> Text generic_transcript) = Text s"
        and mem: "s \<in> {rick_transcript, ml_transcript, react_transcript, generic_transcript}"
      by blast
    have x: "extractTranscript e v = Text s" using h s by (simp add: extractTranscript_failed)
    have u: "usable_transcript (Text s) = Some s" using mem substitutes_usable by auto
    have c: "chunkText s 500 50 \<noteq> []" using mem substitutes_chunked by auto
    have "processVideo e drawn url =
        (Inr (built e drawn v ttl s), [Processing], snd (generateEmbeddings e drawn (chunkText s 500 50)))"
      using h x u c by (intro processVideo_ok) simp_all
    then have "fst (processVideo e drawn url) = Inr (built e drawn v ttl s)" by simp
    moreover have "video_id (built e drawn v ttl s) = v" "transcript (built e drawn v ttl s) = s"
      by (simp_all add: built_def)
    ultimately show ?thesis using s by simp
  qed
  from short subst show ?thesis by blast
qed


theorem processVideo_transcript_precondition_witness:
  "extractVideoId ''https://youtu.be/dQw4w9WgXcQ'' = Some ''dQw4w9WgXcQ''
   \<and> fetchTranscript short_env ''dQw4w9WgXcQ'' = Ok ''Too short.''
   \<and> length ''Too short.'' < 50
   \<and> getVideoMetadata short_env ''dQw4w9WgXcQ'' = Inr ''Example''
   \<and> fst (processVideo short_env 0 ''https://youtu.be/dQw4w9WgXcQ'')
       = Inl (Error ''No transcript available for this video or transcript is too short'')
   \<and> fetchTranscript demo_env ''dQw4w9WgXcQ'' = Failed
   \<and> ''dQw4w9WgXcQ'' \<noteq> ''constructor''
   \<and> getVideoMetadata demo_env ''dQw4w9WgXcQ'' = Inr ''Example''
   \<and> (\<exists>vd. fst (processVideo demo_env 0 ''https://youtu.be/dQw4w9WgXcQ'') = Inr vd
         \<and> video_id vd = ''dQw4w9WgXcQ'' \<and> Text (transcript vd) = Text rick_transcript)"
proof -
  note i = example_ids(1)
  have s1: "fetchTranscript short_env ''dQw4w9WgXcQ'' = Ok ''Too short.''"
    by (simp add: short_env_def demo_env_def)
  have s2: "length ''Too short.'' < 50" by simp
  have s3: "getVideoMetadata short_env ''dQw4w9WgXcQ'' = Inr ''Example''"
    by (simp add: short_env_def demo_env_def)
  have d1: "fetchTranscript demo_env ''dQw4w9WgXcQ'' = Failed" by (simp add: demo_env_def)
  have d2: "''dQw4w9WgXcQ'' \<noteq> ''constructor''" by simp
  have d3: "getVideoMetadata demo_env ''dQw4w9WgXcQ'' = Inr ''Example''" by (simp add: demo_env_def)
  have m: "(case mockTranscripts ''dQw4w9WgXcQ'' of Some x \<Rightarrow> x | None \<Rightarrow> Text generic_transcript)
      = Text rick_transcript"
    by (simp add: mockTranscripts_def)
  note a = processVideo_transcript_precondition
    [of "''https://youtu.be/dQw4w9WgXcQ''" "''dQw4w9WgXcQ''" short_env "''Too short.''" 0 "''Example''"]
  note b = processVideo_transcript_precondition
    [of "''https://youtu.be/dQw4w9WgXcQ''" "''dQw4w9WgXcQ''" demo_env "''Too short.''" 0 "''Example''"]
  have r1: "fst (processVideo short_env 0 ''https://youtu.be/dQw4w9WgXcQ'')
       = Inl (Error ''No transcript available for this video or transcript is too short'')"
    using a i s1 s2 s3 by blast
  have r2: "\<exists>vd. fst (processVideo demo_env 0 ''https://youtu.be/dQw4w9WgXcQ'') = Inr vd
         \<and> video_id vd = ''dQw4w9WgXcQ'' \<and> Text (transcript vd) = Text rick_transcript"
    using b i d1 d2 d3 unfolding m by blast
  from i s1 s2 s3 r1 d1 d2 d3 r2 show ?thesis by (intro conjI)
qed

text \<open>
  The claim's second half fails: with the transcript source failing, \<open>processVideo\<close>
  succeeds on the mock transcript.
\<close>

theorem transcript_substituted_counterexample:
  "fetchTranscript demo_env ''dQw4w9WgXcQ'' = Failed
   \<and> fst (processVideo demo_env 0 ''https://youtu.be/dQw4w9WgXcQ'')
       = Inr (built demo_env 0 ''dQw4w9WgXcQ'' ''Example'' rick_transcript)
   \<and> transcript (built demo_env 0 ''dQw4w9WgXcQ'' ''Example'' rick_transcript) = rick_transcript"
  by (simp add: demo_run) (simp add: demo_env_def built_def)

lemma fold_reported:
  "videoData (fold (\<lambda>p s'. s'\<lparr>processingState := p\<rparr>) ps s) = videoData s"
  "messages (fold (\<lambda>p s'. s'\<lparr>processingState := p\<rparr>) ps s) = messages s"
  "error (fold (\<lambda>p s'. s'\<lparr>processingState := p\<rparr>) ps s) = error s"
  by (induction ps arbitrary: s) simp_all


lemma invalid_run:
  "processVideo demo_env 0 ''not a url'' = (Inl (Error ''Invalid YouTube URL''), [], 0)"
  by (simp add: processVideo_def example_ids(2) del: extractVideoId.simps)




end
